theory Spec2Isabelle
  imports Main "HOL-Library.Word"
begin

section \<open>Data model\<close>

text \<open>
  The script opens a picture with PIL, converts it to mode RGBA and turns it into a numpy
  array of shape \<open>(height, width, 4)\<close> with 8-bit unsigned channels. A pixel is the
  four channel bytes; an image is its two dimensions and the rows of the array, top row
  first. The PIL image \<open>img\<close> and the array \<open>img_array\<close> hold the same pixels,
  so one value stands for both.
\<close>

datatype pixel = Pixel (red: "8 word") (green: "8 word") (blue: "8 word") (alpha: "8 word")

record image =
  height :: nat
  width :: nat
  pixels :: "pixel list list"

text \<open>
  The shape invariant of an array: \<open>height\<close> rows of \<open>width\<close> pixels each.
\<close>

definition wf_image :: "image \<Rightarrow> bool" where
  "wf_image img \<longleftrightarrow>
     length (pixels img) = height img \<and> list_all (\<lambda>row. length row = width img) (pixels img)"

text \<open>
  \<open>img_array[row, col]\<close>. Every read of the script sits behind a loop guard or a
  \<open>range\<close> that keeps both indices inside the shape, so no read is out of range or
  negative.
\<close>

definition img_array :: "image \<Rightarrow> int \<Rightarrow> int \<Rightarrow> pixel" where
  "img_array img row col = pixels img ! nat row ! nat col"

text \<open>The exceptions the modelled calls can raise; all are subclasses of \<open>Exception\<close>.\<close>

datatype py_error = ValueError | OSError | UnidentifiedImageError

text \<open>
  The two ways the script ends with an image to save: the branch of lines 78-81 that
  saves \<open>img\<close> as it was opened, and the path of lines 88-122 that saves
  \<open>cropped_img\<close>.
\<close>

datatype crop_result = Unchanged image | Cropped image

fun result_image :: "crop_result \<Rightarrow> image" where
  "result_image (Unchanged img) = img"
| "result_image (Cropped img) = img"

section \<open>Pixel classification\<close>

text \<open>
  \<^verbatim>\<open>
  def is_background(pixel, threshold):
      if crop_transparent and pixel[3] == 0:
          return True
      return all(value >= threshold for value in pixel[:3])
  \<close>
  The closure reads \<open>crop_transparent\<close> from the enclosing call; here it is the first
  argument. The threshold is a Python integer, the channels are compared by value.
\<close>

definition is_background :: "bool \<Rightarrow> pixel \<Rightarrow> int \<Rightarrow> bool" where
  "is_background crop_transparent pixel threshold =
     (if crop_transparent \<and> alpha pixel = 0 then True
      else list_all (\<lambda>v. threshold \<le> uint v) [red pixel, green pixel, blue pixel])"

section \<open>Boundary search\<close>

text \<open>
  \<open>all(is_background(img_array[row, col], threshold) for col in range(width))\<close> and its
  transpose over \<open>range(height)\<close>.
\<close>

definition row_is_background :: "image \<Rightarrow> int \<Rightarrow> bool \<Rightarrow> int \<Rightarrow> bool" where
  "row_is_background img threshold crop_transparent row =
     list_all (\<lambda>col. is_background crop_transparent (img_array img row col) threshold)
       (map int [0..<width img])"

definition col_is_background :: "image \<Rightarrow> int \<Rightarrow> bool \<Rightarrow> int \<Rightarrow> bool" where
  "col_is_background img threshold crop_transparent col =
     list_all (\<lambda>row. is_background crop_transparent (img_array img row col) threshold)
       (map int [0..<height img])"

text \<open>
  The four \<open>while\<close> loops of lines 54-72, each as the recursion on its loop variable
  (\<open>top'\<close> stands for the script's \<open>top\<close>, \<open>size'\<close> below for a size: both names
  are taken in HOL).
\<close>

function scan_top :: "image \<Rightarrow> int \<Rightarrow> bool \<Rightarrow> int \<Rightarrow> int" where
  "scan_top img threshold crop_transparent top' =
     (if top' < int (height img) \<and> row_is_background img threshold crop_transparent top'
      then scan_top img threshold crop_transparent (top' + 1)
      else top')"
  by pat_completeness auto
termination
  by (relation "measure (\<lambda>(img, threshold, crop_transparent, top'). nat (int (height img) - top'))")
    auto

function scan_bottom :: "image \<Rightarrow> int \<Rightarrow> bool \<Rightarrow> int \<Rightarrow> int" where
  "scan_bottom img threshold crop_transparent bottom =
     (if bottom \<ge> 0 \<and> row_is_background img threshold crop_transparent bottom
      then scan_bottom img threshold crop_transparent (bottom - 1)
      else bottom)"
  by pat_completeness auto
termination
  by (relation "measure (\<lambda>(img, threshold, crop_transparent, bottom). nat (bottom + 1))") auto

function scan_left :: "image \<Rightarrow> int \<Rightarrow> bool \<Rightarrow> int \<Rightarrow> int" where
  "scan_left img threshold crop_transparent left =
     (if left < int (width img) \<and> col_is_background img threshold crop_transparent left
      then scan_left img threshold crop_transparent (left + 1)
      else left)"
  by pat_completeness auto
termination
  by (relation "measure (\<lambda>(img, threshold, crop_transparent, left). nat (int (width img) - left))")
    auto

function scan_right :: "image \<Rightarrow> int \<Rightarrow> bool \<Rightarrow> int \<Rightarrow> int" where
  "scan_right img threshold crop_transparent right =
     (if right \<ge> 0 \<and> col_is_background img threshold crop_transparent right
      then scan_right img threshold crop_transparent (right - 1)
      else right)"
  by pat_completeness auto
termination
  by (relation "measure (\<lambda>(img, threshold, crop_transparent, right). nat (right + 1))") auto

text \<open>The loops with their initial values: \<open>0\<close>, \<open>height - 1\<close>, \<open>0\<close>, \<open>width - 1\<close>.\<close>

definition find_top :: "image \<Rightarrow> int \<Rightarrow> bool \<Rightarrow> int" where
  "find_top img threshold crop_transparent = scan_top img threshold crop_transparent 0"

definition find_bottom :: "image \<Rightarrow> int \<Rightarrow> bool \<Rightarrow> int" where
  "find_bottom img threshold crop_transparent =
     scan_bottom img threshold crop_transparent (int (height img) - 1)"

definition find_left :: "image \<Rightarrow> int \<Rightarrow> bool \<Rightarrow> int" where
  "find_left img threshold crop_transparent = scan_left img threshold crop_transparent 0"

definition find_right :: "image \<Rightarrow> int \<Rightarrow> bool \<Rightarrow> int" where
  "find_right img threshold crop_transparent =
     scan_right img threshold crop_transparent (int (width img) - 1)"

section \<open>The PIL operations the script calls\<close>

definition transparent :: pixel where
  "transparent = Pixel 0 0 0 0"

text \<open>
  \<open>img.crop((left, upper, right, lower))\<close>: an image of size
  \<open>(right - left, lower - upper)\<close> whose pixel \<open>(x, y)\<close> is the source's pixel
  \<open>(left + x, upper + y)\<close>, zero-filled where that lies outside the source;
  \<open>ValueError\<close> when \<open>right < left\<close> or \<open>lower < upper\<close>.
\<close>

definition image_crop :: "image \<Rightarrow> int \<times> int \<times> int \<times> int \<Rightarrow> py_error + image" where
  "image_crop img box =
     (case box of (left, upper, right, lower) \<Rightarrow>
        if right < left \<or> lower < upper then Inl ValueError
        else Inr \<lparr>height = nat (lower - upper), width = nat (right - left),
          pixels =
            map (\<lambda>y. map (\<lambda>x.
                  if 0 \<le> upper + y \<and> upper + y < int (height img) \<and>
                     0 \<le> left + x \<and> left + x < int (width img)
                  then img_array img (upper + y) (left + x) else transparent)
                (map int [0..<nat (right - left)]))
              (map int [0..<nat (lower - upper)])\<rparr>)"

text \<open>
  \<open>Image.new('RGBA', (size, size), (0, 0, 0, 0))\<close>: \<open>ValueError\<close> on a negative
  size, otherwise a canvas filled with the given colour.
\<close>

definition image_new :: "int \<Rightarrow> py_error + image" where
  "image_new size' =
     (if size' < 0 then Inl ValueError
      else Inr \<lparr>height = nat size', width = nat size',
        pixels = replicate (nat size') (replicate (nat size') transparent)\<rparr>)"

text \<open>
  \<open>canvas.paste(src, (x0, y0))\<close> with no mask: every band of the source overwrites the
  canvas where the source lies, clipped to the canvas.
\<close>

definition image_paste :: "image \<Rightarrow> image \<Rightarrow> int \<times> int \<Rightarrow> image" where
  "image_paste canvas src paste_position =
     (case paste_position of (x0, y0) \<Rightarrow>
        canvas\<lparr>pixels :=
          map (\<lambda>y. map (\<lambda>x.
                if x0 \<le> x \<and> x < x0 + int (width src) \<and> y0 \<le> y \<and> y < y0 + int (height src)
                then img_array src (y - y0) (x - x0) else img_array canvas y x)
              (map int [0..<width canvas]))
            (map int [0..<height canvas])\<rparr>)"

section \<open>The cropping algorithm\<close>

text \<open>
  Lines 38-111 of \<open>auto_crop_borders\<close>: from the array's shape to the image that is
  saved. \<open>//\<close> is floor division, as \<open>div\<close> on \<open>int\<close>.
\<close>

definition crop :: "image \<Rightarrow> int \<Rightarrow> bool \<Rightarrow> bool \<Rightarrow> int \<Rightarrow> py_error + crop_result" where
  "crop img threshold crop_transparent make_square padding =
     (let top' = find_top img threshold crop_transparent;
          bottom = find_bottom img threshold crop_transparent;
          left = find_left img threshold crop_transparent;
          right = find_right img threshold crop_transparent
      in if top' \<ge> bottom \<or> left \<ge> right then Inr (Unchanged img)
         else
           (case image_crop img (left, top', right + 1, bottom + 1) of
              Inl e \<Rightarrow> Inl e
            | Inr cropped_img \<Rightarrow>
                if make_square then
                  (let cropped_width = int (width cropped_img);
                       cropped_height = int (height cropped_img);
                       max_dimension = max cropped_width cropped_height;
                       square_size = max_dimension + (padding * 2)
                   in case image_new square_size of
                        Inl e \<Rightarrow> Inl e
                      | Inr square_img \<Rightarrow>
                          Inr (Cropped (image_paste square_img cropped_img
                            (padding + (max_dimension - cropped_width) div 2,
                             padding + (max_dimension - cropped_height) div 2))))
                else Inr (Cropped cropped_img)))"

section \<open>The whole call, with its files\<close>

text \<open>
  The file operations are the library's; they are parameters here. \<open>image_open\<close> is
  \<open>Image.open\<close> followed by the conversion to RGBA, \<open>image_save\<close> is \<open>img.save\<close>,
  which leaves a new state of the files and may raise.
\<close>

record 'fs io =
  path_exists :: "'fs \<Rightarrow> string \<Rightarrow> bool"
  image_open :: "'fs \<Rightarrow> string \<Rightarrow> py_error + image"
  image_save :: "'fs \<Rightarrow> image \<Rightarrow> string \<Rightarrow> 'fs \<times> py_error option"

text \<open>
  The body of the \<open>try\<close> (lines 18-122): \<open>Inl e\<close> is an exception leaving the body,
  \<open>Inr b\<close> a \<open>return b\<close>. The messages printed on the way and the timing are
  left out; they decide nothing.
\<close>

definition auto_crop_body ::
  "'fs io \<Rightarrow> 'fs \<Rightarrow> string \<Rightarrow> string \<Rightarrow> int \<Rightarrow> bool \<Rightarrow> bool \<Rightarrow> int \<Rightarrow> 'fs \<times> (py_error + bool)" where
  "auto_crop_body os fs input_path output_path threshold crop_transparent make_square padding =
     (if \<not> path_exists os fs input_path then (fs, Inr False)
      else
        (case image_open os fs input_path of
           Inl e \<Rightarrow> (fs, Inl e)
         | Inr img \<Rightarrow>
             (case crop img threshold crop_transparent make_square padding of
                Inl e \<Rightarrow> (fs, Inl e)
              | Inr res \<Rightarrow>
                  (case image_save os fs (result_image res) output_path of
                     (fs', Some e) \<Rightarrow> (fs', Inl e)
                   | (fs', None) \<Rightarrow> (fs', Inr True)))))"

text \<open>
  The function with its handler (lines 124-126): \<open>except Exception\<close> turns every
  exception of the body into \<open>return False\<close>.
\<close>

definition auto_crop_borders ::
  "'fs io \<Rightarrow> 'fs \<Rightarrow> string \<Rightarrow> string \<Rightarrow> int \<Rightarrow> bool \<Rightarrow> bool \<Rightarrow> int \<Rightarrow> 'fs \<times> bool" where
  "auto_crop_borders os fs input_path output_path threshold crop_transparent make_square padding =
     (case auto_crop_body os fs input_path output_path threshold crop_transparent make_square
             padding of
        (fs', Inl e) \<Rightarrow> (fs', False)
      | (fs', Inr b) \<Rightarrow> (fs', b))"

section \<open>Notions of the specification\<close>

text \<open>
  A line "contains at least one non-background pixel": some pixel of the row (of the
  column) inside the image is not classified as background.
\<close>

definition row_has_content :: "image \<Rightarrow> int \<Rightarrow> bool \<Rightarrow> int \<Rightarrow> bool" where
  "row_has_content img threshold crop_transparent row \<longleftrightarrow>
     (\<exists>col\<in>{0..<int (width img)}.
        \<not> is_background crop_transparent (img_array img row col) threshold)"

definition col_has_content :: "image \<Rightarrow> int \<Rightarrow> bool \<Rightarrow> int \<Rightarrow> bool" where
  "col_has_content img threshold crop_transparent col \<longleftrightarrow>
     (\<exists>row\<in>{0..<int (height img)}.
        \<not> is_background crop_transparent (img_array img row col) threshold)"

text \<open>The tuple handed to \<open>img.crop\<close> at line 88.\<close>

definition crop_box :: "image \<Rightarrow> int \<Rightarrow> bool \<Rightarrow> int \<times> int \<times> int \<times> int" where
  "crop_box img threshold crop_transparent =
     (find_left img threshold crop_transparent, find_top img threshold crop_transparent,
      find_right img threshold crop_transparent + 1,
      find_bottom img threshold crop_transparent + 1)"

section \<open>Test pictures\<close>

definition white :: pixel where
  "white = Pixel 255 255 255 255"

definition black :: pixel where
  "black = Pixel 0 0 0 255"

text \<open>
  The 10 by 10 picture of the specification's scenarios: white, with the pixels (3,3)
  to (6,6) black.
\<close>

definition scenario_image :: image where
  "scenario_image = \<lparr>height = 10, width = 10,
     pixels = map (\<lambda>y. map (\<lambda>x. if 3 \<le> x \<and> x \<le> 6 \<and> 3 \<le> y \<and> y \<le> 6 then black else white)
       [0..<10]) [0..<10]\<rparr>"

text \<open>A picture of width 3 and height 2 with white pixels only.\<close>

definition blank_image :: image where
  "blank_image = \<lparr>height = 2, width = 3, pixels = replicate 2 (replicate 3 white)\<rparr>"

text \<open>
  Pictures whose content lies in one row, in one column, and in one pixel, each with
  white around it.
\<close>

definition stripe_image :: image where
  "stripe_image = \<lparr>height = 5, width = 5,
     pixels = map (\<lambda>y. map (\<lambda>x. if y = 2 \<and> 1 \<le> x \<and> x \<le> 3 then black else white)
       [0..<5]) [0..<5]\<rparr>"

definition bar_image :: image where
  "bar_image = \<lparr>height = 5, width = 5,
     pixels = map (\<lambda>y. map (\<lambda>x. if x = 2 \<and> 1 \<le> y \<and> y \<le> 3 then black else white)
       [0..<5]) [0..<5]\<rparr>"

definition dot_image :: image where
  "dot_image = \<lparr>height = 3, width = 4,
     pixels = map (\<lambda>y. map (\<lambda>x. if y = 1 \<and> x = 2 then black else white) [0..<4]) [0..<3]\<rparr>"

text \<open>
  A picture of width 4 and height 5 whose content is two pixels wide and three high, the
  4 by 4 black square the scenario leaves, and the canvases the scenarios end with.
\<close>

definition narrow_image :: image where
  "narrow_image = \<lparr>height = 5, width = 4,
     pixels = map (\<lambda>y. map (\<lambda>x. if 1 \<le> x \<and> x \<le> 2 \<and> 1 \<le> y \<and> y \<le> 3 then black else white)
       [0..<4]) [0..<5]\<rparr>"

definition black_square :: image where
  "black_square = \<lparr>height = 4, width = 4, pixels = replicate 4 (replicate 4 black)\<rparr>"

definition scenario_canvas :: image where
  "scenario_canvas = \<lparr>height = 8, width = 8,
     pixels = map (\<lambda>y. map (\<lambda>x. if 2 \<le> x \<and> x < 6 \<and> 2 \<le> y \<and> y < 6 then black else transparent)
       [0..<8]) [0..<8]\<rparr>"

definition narrow_canvas :: image where
  "narrow_canvas = \<lparr>height = 5, width = 5,
     pixels = map (\<lambda>y. map (\<lambda>x. if 1 \<le> x \<and> x < 3 \<and> 1 \<le> y \<and> y < 4 then black else transparent)
       [0..<5]) [0..<5]\<rparr>"

text \<open>
  Files for test runs: a list of paths, each with the picture it decodes to or with
  \<open>None\<close> when it is no picture. Opening a file that is no picture raises, and so
  does opening one whose picture has zero width or height, which \<open>Image.open\<close> does
  not accept. Saving puts the picture in front; saving a picture of zero width or
  height raises \<open>ValueError\<close>. \<open>readonly_io\<close> is the same with a \<open>save\<close> that
  always raises.
\<close>

type_synonym files = "(string \<times> image option) list"

definition test_io :: "files io" where
  "test_io = \<lparr>path_exists = (\<lambda>fs p. map_of fs p \<noteq> None),
     image_open = (\<lambda>fs p. case map_of fs p of
         None \<Rightarrow> Inl OSError
       | Some None \<Rightarrow> Inl UnidentifiedImageError
       | Some (Some img) \<Rightarrow>
           if height img = 0 \<or> width img = 0 then Inl UnidentifiedImageError else Inr img),
     image_save = (\<lambda>fs img p.
       if height img = 0 \<or> width img = 0 then (fs, Some ValueError)
       else ((p, Some img) # fs, None))\<rparr>"

definition readonly_io :: "files io" where
  "readonly_io = test_io\<lparr>image_save := (\<lambda>fs img p. (fs, Some OSError))\<rparr>"

definition empty_image :: image where
  "empty_image = \<lparr>height = 0, width = 0, pixels = []\<rparr>"

section \<open>Properties of the boundary search\<close>

declare scan_top.simps [simp del] scan_bottom.simps [simp del]
  scan_left.simps [simp del] scan_right.simps [simp del]

lemma set_range_int: "set (map int [0..<n]) = {0..<int n}"
proof -
  have "x \<in> int ` {0..<n}" if "0 \<le> x" "x < int n" for x
    using that by (intro image_eqI [of _ _ "nat x"]) auto
  then show ?thesis by auto
qed

lemma row_is_background_iff:
  "row_is_background img th ct r \<longleftrightarrow> \<not> row_has_content img th ct r"
  by (simp add: row_is_background_def row_has_content_def list_all_iff set_range_int del: set_map)

lemma col_is_background_iff:
  "col_is_background img th ct c \<longleftrightarrow> \<not> col_has_content img th ct c"
  by (simp add: col_is_background_def col_has_content_def list_all_iff set_range_int del: set_map)

subsection \<open>The top scan\<close>

lemma scan_top_ge: "t \<le> scan_top img th ct t"
proof (induction img th ct t rule: scan_top.induct)
  case (1 img th ct t)
  then show ?case by (subst scan_top.simps) auto
qed

lemma scan_top_le: "t \<le> int (height img) \<Longrightarrow> scan_top img th ct t \<le> int (height img)"
proof (induction img th ct t rule: scan_top.induct)
  case (1 img th ct t)
  then show ?case by (subst scan_top.simps) auto
qed

lemma scan_top_skipped:
  "t \<le> r \<Longrightarrow> r < scan_top img th ct t \<Longrightarrow> row_is_background img th ct r"
proof (induction img th ct t rule: scan_top.induct)
  case (1 img th ct t)
  show ?case
  proof (cases "t < int (height img) \<and> row_is_background img th ct t")
    case True
    with 1 show ?thesis
      by (cases "r = t") (auto simp: scan_top.simps [of img th ct t])
  next
    case False
    with 1 show ?thesis by (auto simp: scan_top.simps [of img th ct t])
  qed
qed

lemma scan_top_stop:
  "scan_top img th ct t < int (height img) \<Longrightarrow>
   \<not> row_is_background img th ct (scan_top img th ct t)"
proof (induction img th ct t rule: scan_top.induct)
  case (1 img th ct t)
  show ?case
  proof (cases "t < int (height img) \<and> row_is_background img th ct t")
    case True
    with 1 show ?thesis by (simp add: scan_top.simps [of img th ct t])
  next
    case False
    with 1 show ?thesis by (auto simp: scan_top.simps [of img th ct t])
  qed
qed

subsection \<open>The bottom scan\<close>

lemma scan_bottom_le: "scan_bottom img th ct b \<le> b"
proof (induction img th ct b rule: scan_bottom.induct)
  case (1 img th ct b)
  then show ?case by (subst scan_bottom.simps) auto
qed

lemma scan_bottom_ge: "- 1 \<le> b \<Longrightarrow> - 1 \<le> scan_bottom img th ct b"
proof (induction img th ct b rule: scan_bottom.induct)
  case (1 img th ct b)
  then show ?case by (subst scan_bottom.simps) auto
qed

lemma scan_bottom_skipped:
  "r \<le> b \<Longrightarrow> scan_bottom img th ct b < r \<Longrightarrow> row_is_background img th ct r"
proof (induction img th ct b rule: scan_bottom.induct)
  case (1 img th ct b)
  show ?case
  proof (cases "b \<ge> 0 \<and> row_is_background img th ct b")
    case True
    with 1 show ?thesis
      by (cases "r = b") (auto simp: scan_bottom.simps [of img th ct b])
  next
    case False
    with 1 show ?thesis by (auto simp: scan_bottom.simps [of img th ct b])
  qed
qed

lemma scan_bottom_stop:
  "0 \<le> scan_bottom img th ct b \<Longrightarrow> \<not> row_is_background img th ct (scan_bottom img th ct b)"
proof (induction img th ct b rule: scan_bottom.induct)
  case (1 img th ct b)
  show ?case
  proof (cases "b \<ge> 0 \<and> row_is_background img th ct b")
    case True
    with 1 show ?thesis by (simp add: scan_bottom.simps [of img th ct b])
  next
    case False
    with 1 show ?thesis by (auto simp: scan_bottom.simps [of img th ct b])
  qed
qed

subsection \<open>The left scan\<close>

lemma scan_left_ge: "l \<le> scan_left img th ct l"
proof (induction img th ct l rule: scan_left.induct)
  case (1 img th ct l)
  then show ?case by (subst scan_left.simps) auto
qed

lemma scan_left_le: "l \<le> int (width img) \<Longrightarrow> scan_left img th ct l \<le> int (width img)"
proof (induction img th ct l rule: scan_left.induct)
  case (1 img th ct l)
  then show ?case by (subst scan_left.simps) auto
qed

lemma scan_left_skipped:
  "l \<le> c \<Longrightarrow> c < scan_left img th ct l \<Longrightarrow> col_is_background img th ct c"
proof (induction img th ct l rule: scan_left.induct)
  case (1 img th ct l)
  show ?case
  proof (cases "l < int (width img) \<and> col_is_background img th ct l")
    case True
    with 1 show ?thesis
      by (cases "c = l") (auto simp: scan_left.simps [of img th ct l])
  next
    case False
    with 1 show ?thesis by (auto simp: scan_left.simps [of img th ct l])
  qed
qed

lemma scan_left_stop:
  "scan_left img th ct l < int (width img) \<Longrightarrow>
   \<not> col_is_background img th ct (scan_left img th ct l)"
proof (induction img th ct l rule: scan_left.induct)
  case (1 img th ct l)
  show ?case
  proof (cases "l < int (width img) \<and> col_is_background img th ct l")
    case True
    with 1 show ?thesis by (simp add: scan_left.simps [of img th ct l])
  next
    case False
    with 1 show ?thesis by (auto simp: scan_left.simps [of img th ct l])
  qed
qed

subsection \<open>The right scan\<close>

lemma scan_right_le: "scan_right img th ct r \<le> r"
proof (induction img th ct r rule: scan_right.induct)
  case (1 img th ct r)
  then show ?case by (subst scan_right.simps) auto
qed

lemma scan_right_ge: "- 1 \<le> r \<Longrightarrow> - 1 \<le> scan_right img th ct r"
proof (induction img th ct r rule: scan_right.induct)
  case (1 img th ct r)
  then show ?case by (subst scan_right.simps) auto
qed

lemma scan_right_skipped:
  "c \<le> r \<Longrightarrow> scan_right img th ct r < c \<Longrightarrow> col_is_background img th ct c"
proof (induction img th ct r rule: scan_right.induct)
  case (1 img th ct r)
  show ?case
  proof (cases "r \<ge> 0 \<and> col_is_background img th ct r")
    case True
    with 1 show ?thesis
      by (cases "c = r") (auto simp: scan_right.simps [of img th ct r])
  next
    case False
    with 1 show ?thesis by (auto simp: scan_right.simps [of img th ct r])
  qed
qed

lemma scan_right_stop:
  "0 \<le> scan_right img th ct r \<Longrightarrow> \<not> col_is_background img th ct (scan_right img th ct r)"
proof (induction img th ct r rule: scan_right.induct)
  case (1 img th ct r)
  show ?case
  proof (cases "r \<ge> 0 \<and> col_is_background img th ct r")
    case True
    with 1 show ?thesis by (simp add: scan_right.simps [of img th ct r])
  next
    case False
    with 1 show ?thesis by (auto simp: scan_right.simps [of img th ct r])
  qed
qed

subsection \<open>The four boundaries\<close>

lemma find_top_bounds:
  "0 \<le> find_top img th ct" "find_top img th ct \<le> int (height img)"
  using scan_top_ge [of 0 img th ct] scan_top_le [of 0 img th ct]
  by (simp_all add: find_top_def)

lemma find_top_skipped:
  "0 \<le> r \<Longrightarrow> r < find_top img th ct \<Longrightarrow> \<not> row_has_content img th ct r"
  using scan_top_skipped [of 0 r img th ct]
  by (simp add: find_top_def row_is_background_iff)

lemma find_top_stop:
  "find_top img th ct < int (height img) \<Longrightarrow> row_has_content img th ct (find_top img th ct)"
  using scan_top_stop [of img th ct 0]
  by (simp add: find_top_def row_is_background_iff)

lemma find_bottom_bounds:
  "- 1 \<le> find_bottom img th ct" "find_bottom img th ct < int (height img)"
  using scan_bottom_ge [of "int (height img) - 1" img th ct]
    scan_bottom_le [of img th ct "int (height img) - 1"]
  by (simp_all add: find_bottom_def)

lemma find_bottom_skipped:
  "find_bottom img th ct < r \<Longrightarrow> r < int (height img) \<Longrightarrow> \<not> row_has_content img th ct r"
  using scan_bottom_skipped [of r "int (height img) - 1" img th ct]
  by (simp add: find_bottom_def row_is_background_iff)

lemma find_bottom_stop:
  "0 \<le> find_bottom img th ct \<Longrightarrow> row_has_content img th ct (find_bottom img th ct)"
  using scan_bottom_stop [of img th ct "int (height img) - 1"]
  by (simp add: find_bottom_def row_is_background_iff)

lemma find_left_bounds:
  "0 \<le> find_left img th ct" "find_left img th ct \<le> int (width img)"
  using scan_left_ge [of 0 img th ct] scan_left_le [of 0 img th ct]
  by (simp_all add: find_left_def)

lemma find_left_skipped:
  "0 \<le> c \<Longrightarrow> c < find_left img th ct \<Longrightarrow> \<not> col_has_content img th ct c"
  using scan_left_skipped [of 0 c img th ct]
  by (simp add: find_left_def col_is_background_iff)

lemma find_left_stop:
  "find_left img th ct < int (width img) \<Longrightarrow> col_has_content img th ct (find_left img th ct)"
  using scan_left_stop [of img th ct 0]
  by (simp add: find_left_def col_is_background_iff)

lemma find_right_bounds:
  "- 1 \<le> find_right img th ct" "find_right img th ct < int (width img)"
  using scan_right_ge [of "int (width img) - 1" img th ct]
    scan_right_le [of img th ct "int (width img) - 1"]
  by (simp_all add: find_right_def)

lemma find_right_skipped:
  "find_right img th ct < c \<Longrightarrow> c < int (width img) \<Longrightarrow> \<not> col_has_content img th ct c"
  using scan_right_skipped [of c "int (width img) - 1" img th ct]
  by (simp add: find_right_def col_is_background_iff)

lemma find_right_stop:
  "0 \<le> find_right img th ct \<Longrightarrow> col_has_content img th ct (find_right img th ct)"
  using scan_right_stop [of img th ct "int (width img) - 1"]
  by (simp add: find_right_def col_is_background_iff)

text \<open>A scan that meets no line with content runs to its sentinel.\<close>

lemma find_top_exhausted:
  "\<forall>r\<in>{0..<int (height img)}. \<not> row_has_content img th ct r \<Longrightarrow>
   find_top img th ct = int (height img)"
  using find_top_bounds [of img th ct] find_top_stop [of img th ct]
  by (cases "find_top img th ct < int (height img)") auto

lemma find_bottom_exhausted:
  "\<forall>r\<in>{0..<int (height img)}. \<not> row_has_content img th ct r \<Longrightarrow>
   find_bottom img th ct = - 1"
  using find_bottom_bounds [of img th ct] find_bottom_stop [of img th ct]
  by (cases "0 \<le> find_bottom img th ct") auto

lemma find_left_exhausted:
  "\<forall>c\<in>{0..<int (width img)}. \<not> col_has_content img th ct c \<Longrightarrow>
   find_left img th ct = int (width img)"
  using find_left_bounds [of img th ct] find_left_stop [of img th ct]
  by (cases "find_left img th ct < int (width img)") auto

lemma find_right_exhausted:
  "\<forall>c\<in>{0..<int (width img)}. \<not> col_has_content img th ct c \<Longrightarrow>
   find_right img th ct = - 1"
  using find_right_bounds [of img th ct] find_right_stop [of img th ct]
  by (cases "0 \<le> find_right img th ct") auto

subsection \<open>The test pictures, evaluated\<close>

lemma scenario_scans:
  "find_top scenario_image 240 True = 3" "find_bottom scenario_image 240 True = 6"
  "find_left scenario_image 240 True = 3" "find_right scenario_image 240 True = 6"
  by code_simp+

lemma blank_scans:
  "find_top blank_image 240 True = 2" "find_bottom blank_image 240 True = - 1"
  "find_left blank_image 240 True = 3" "find_right blank_image 240 True = - 1"
  by code_simp+

lemma scenario_size: "height scenario_image = 10" "width scenario_image = 10"
  by (simp_all add: scenario_image_def)

lemma blank_size: "height blank_image = 2" "width blank_image = 3"
  by (simp_all add: blank_image_def)

section \<open>The boundaries and the classification\<close>

text \<open>
  C1: for every RGBA image, \<open>top\<close> is the first row index, counting up from 0, whose row
  contains a non-background pixel; \<open>bottom\<close> is the first such row counting down from
  \<open>height - 1\<close>; \<open>left\<close> and \<open>right\<close> are the same for columns, counting up from 0
  and down from \<open>width - 1\<close>. A scan that finds no such line ends at its sentinel:
  \<open>top = height\<close>, \<open>bottom = -1\<close>, \<open>left = width\<close>, \<open>right = -1\<close>.
\<close>

theorem boundary_scans:
  "(0 \<le> find_top img th ct \<and> find_top img th ct \<le> int (height img) \<and>
    (\<forall>r. 0 \<le> r \<and> r < find_top img th ct \<longrightarrow> \<not> row_has_content img th ct r) \<and>
    (find_top img th ct < int (height img) \<longrightarrow> row_has_content img th ct (find_top img th ct)) \<and>
    ((\<forall>r\<in>{0..<int (height img)}. \<not> row_has_content img th ct r) \<longrightarrow>
       find_top img th ct = int (height img))) \<and>
   (- 1 \<le> find_bottom img th ct \<and> find_bottom img th ct < int (height img) \<and>
    (\<forall>r. find_bottom img th ct < r \<and> r < int (height img) \<longrightarrow> \<not> row_has_content img th ct r) \<and>
    (0 \<le> find_bottom img th ct \<longrightarrow> row_has_content img th ct (find_bottom img th ct)) \<and>
    ((\<forall>r\<in>{0..<int (height img)}. \<not> row_has_content img th ct r) \<longrightarrow>
       find_bottom img th ct = - 1)) \<and>
   (0 \<le> find_left img th ct \<and> find_left img th ct \<le> int (width img) \<and>
    (\<forall>c. 0 \<le> c \<and> c < find_left img th ct \<longrightarrow> \<not> col_has_content img th ct c) \<and>
    (find_left img th ct < int (width img) \<longrightarrow> col_has_content img th ct (find_left img th ct)) \<and>
    ((\<forall>c\<in>{0..<int (width img)}. \<not> col_has_content img th ct c) \<longrightarrow>
       find_left img th ct = int (width img))) \<and>
   (- 1 \<le> find_right img th ct \<and> find_right img th ct < int (width img) \<and>
    (\<forall>c. find_right img th ct < c \<and> c < int (width img) \<longrightarrow> \<not> col_has_content img th ct c) \<and>
    (0 \<le> find_right img th ct \<longrightarrow> col_has_content img th ct (find_right img th ct)) \<and>
    ((\<forall>c\<in>{0..<int (width img)}. \<not> col_has_content img th ct c) \<longrightarrow>
       find_right img th ct = - 1))"
proof -
  have top: "0 \<le> find_top img th ct \<and> find_top img th ct \<le> int (height img) \<and>
    (\<forall>r. 0 \<le> r \<and> r < find_top img th ct \<longrightarrow> \<not> row_has_content img th ct r) \<and>
    (find_top img th ct < int (height img) \<longrightarrow> row_has_content img th ct (find_top img th ct)) \<and>
    ((\<forall>r\<in>{0..<int (height img)}. \<not> row_has_content img th ct r) \<longrightarrow>
       find_top img th ct = int (height img))"
    using find_top_bounds [of img th ct] find_top_skipped [of _ img th ct]
      find_top_stop [of img th ct] find_top_exhausted [of img th ct]
    by blast
  have bottom: "- 1 \<le> find_bottom img th ct \<and> find_bottom img th ct < int (height img) \<and>
    (\<forall>r. find_bottom img th ct < r \<and> r < int (height img) \<longrightarrow> \<not> row_has_content img th ct r) \<and>
    (0 \<le> find_bottom img th ct \<longrightarrow> row_has_content img th ct (find_bottom img th ct)) \<and>
    ((\<forall>r\<in>{0..<int (height img)}. \<not> row_has_content img th ct r) \<longrightarrow>
       find_bottom img th ct = - 1)"
    using find_bottom_bounds [of img th ct] find_bottom_skipped [of img th ct]
      find_bottom_stop [of img th ct] find_bottom_exhausted [of img th ct]
    by blast
  have left: "0 \<le> find_left img th ct \<and> find_left img th ct \<le> int (width img) \<and>
    (\<forall>c. 0 \<le> c \<and> c < find_left img th ct \<longrightarrow> \<not> col_has_content img th ct c) \<and>
    (find_left img th ct < int (width img) \<longrightarrow> col_has_content img th ct (find_left img th ct)) \<and>
    ((\<forall>c\<in>{0..<int (width img)}. \<not> col_has_content img th ct c) \<longrightarrow>
       find_left img th ct = int (width img))"
    using find_left_bounds [of img th ct] find_left_skipped [of _ img th ct]
      find_left_stop [of img th ct] find_left_exhausted [of img th ct]
    by blast
  have right: "- 1 \<le> find_right img th ct \<and> find_right img th ct < int (width img) \<and>
    (\<forall>c. find_right img th ct < c \<and> c < int (width img) \<longrightarrow> \<not> col_has_content img th ct c) \<and>
    (0 \<le> find_right img th ct \<longrightarrow> col_has_content img th ct (find_right img th ct)) \<and>
    ((\<forall>c\<in>{0..<int (width img)}. \<not> col_has_content img th ct c) \<longrightarrow>
       find_right img th ct = - 1)"
    using find_right_bounds [of img th ct] find_right_skipped [of img th ct]
      find_right_stop [of img th ct] find_right_exhausted [of img th ct]
    by blast
  show ?thesis
    by (rule conjI [OF top conjI [OF bottom conjI [OF left right]]])
qed

theorem boundary_scans_witness:
  "(find_top scenario_image 240 True = 3 \<and> row_has_content scenario_image 240 True 3) \<and>
   (find_bottom scenario_image 240 True = 6 \<and> row_has_content scenario_image 240 True 6) \<and>
   (find_left scenario_image 240 True = 3 \<and> col_has_content scenario_image 240 True 3) \<and>
   (find_right scenario_image 240 True = 6 \<and> col_has_content scenario_image 240 True 6) \<and>
   \<not> row_has_content scenario_image 240 True 2 \<and>
   \<not> row_has_content scenario_image 240 True 7 \<and>
   \<not> col_has_content scenario_image 240 True 2 \<and>
   \<not> col_has_content scenario_image 240 True 7 \<and>
   find_top blank_image 240 True = int (height blank_image) \<and>
   find_bottom blank_image 240 True = - 1 \<and>
   find_left blank_image 240 True = int (width blank_image) \<and>
   find_right blank_image 240 True = - 1"
  using boundary_scans [of scenario_image 240 True]
  by (simp add: scenario_scans scenario_size blank_scans blank_size)

text \<open>
  C2: a pixel \<open>(r, g, b, a)\<close> is background exactly when \<open>crop_transparent\<close> holds and
  \<open>a = 0\<close>, or all of \<open>r\<close>, \<open>g\<close>, \<open>b\<close> are at least the threshold. With
  \<open>crop_transparent\<close> a pixel of alpha 0 is background whatever its colour; a pixel of any
  other alpha is background only through the colour test. This holds for every integer
  threshold, those of 0 to 255 among them.
\<close>

theorem is_background_rule:
  "(is_background ct (Pixel r g b a) t \<longleftrightarrow>
      (ct \<and> a = 0) \<or> (t \<le> uint r \<and> t \<le> uint g \<and> t \<le> uint b)) \<and>
   is_background True (Pixel r g b 0) t \<and>
   (a \<noteq> 0 \<longrightarrow>
      (is_background ct (Pixel r g b a) t \<longleftrightarrow> t \<le> uint r \<and> t \<le> uint g \<and> t \<le> uint b))"
  by (auto simp: is_background_def)

theorem is_background_rule_witness:
  "is_background True (Pixel 255 0 0 0) 240 \<and>
   \<not> is_background True (Pixel 255 0 0 255) 240 \<and>
   \<not> is_background True (Pixel 255 0 0 1) 240 \<and>
   is_background True (Pixel 250 241 240 1) 240 \<and>
   \<not> is_background False (Pixel 255 0 0 0) 240"
  using is_background_rule [of True 255 0 0 0 240] is_background_rule [of True 255 0 0 255 240]
    is_background_rule [of True 255 0 0 1 240] is_background_rule [of True 250 241 240 1 240]
    is_background_rule [of False 255 0 0 0 240]
  by simp

section \<open>Content in a single line\<close>

lemma content_in_one_row:
  assumes "0 \<le> y" "y < int (height img)" "row_has_content img th ct y"
    and "\<forall>r\<in>{0..<int (height img)}. r \<noteq> y \<longrightarrow> \<not> row_has_content img th ct r"
  shows "find_top img th ct = y" "find_bottom img th ct = y"
proof -
  have "find_top img th ct \<le> y"
    using find_top_skipped [of y img th ct] assms(1,3) by force
  then show "find_top img th ct = y"
    using find_top_stop [of img th ct] find_top_bounds [of img th ct] assms(2,4) by force
  have "y \<le> find_bottom img th ct"
    using find_bottom_skipped [of img th ct y] assms(2,3) by force
  then show "find_bottom img th ct = y"
    using find_bottom_stop [of img th ct] find_bottom_bounds [of img th ct] assms(1,4) by force
qed

lemma content_in_one_col:
  assumes "0 \<le> x" "x < int (width img)" "col_has_content img th ct x"
    and "\<forall>c\<in>{0..<int (width img)}. c \<noteq> x \<longrightarrow> \<not> col_has_content img th ct c"
  shows "find_left img th ct = x" "find_right img th ct = x"
proof -
  have "find_left img th ct \<le> x"
    using find_left_skipped [of x img th ct] assms(1,3) by force
  then show "find_left img th ct = x"
    using find_left_stop [of img th ct] find_left_bounds [of img th ct] assms(2,4) by force
  have "x \<le> find_right img th ct"
    using find_right_skipped [of img th ct x] assms(2,3) by force
  then show "find_right img th ct = x"
    using find_right_stop [of img th ct] find_right_bounds [of img th ct] assms(1,4) by force
qed

lemma crop_degenerate:
  "find_top img th ct \<ge> find_bottom img th ct \<or> find_left img th ct \<ge> find_right img th ct \<Longrightarrow>
   crop img th ct sq pad = Inr (Unchanged img)"
  by (simp add: crop_def Let_def)

lemma crop_not_degenerate:
  "\<not> (find_top img th ct \<ge> find_bottom img th ct \<or> find_left img th ct \<ge> find_right img th ct) \<Longrightarrow>
   crop img th ct sq pad \<noteq> Inr (Unchanged img')"
  by (simp add: crop_def Let_def split: sum.splits)

lemma all_background_rows:
  "\<forall>r\<in>{0..<int (height img)}. \<forall>c\<in>{0..<int (width img)}.
     is_background ct (img_array img r c) th \<Longrightarrow>
   \<forall>r\<in>{0..<int (height img)}. \<not> row_has_content img th ct r"
  by (simp add: row_has_content_def)

lemma stripe_scans:
  "find_top stripe_image 240 True = 2" "find_bottom stripe_image 240 True = 2"
  "find_left stripe_image 240 True = 1" "find_right stripe_image 240 True = 3"
  by code_simp+

lemma bar_scans:
  "find_top bar_image 240 True = 1" "find_bottom bar_image 240 True = 3"
  "find_left bar_image 240 True = 2" "find_right bar_image 240 True = 2"
  by code_simp+

text \<open>
  C4: the script takes its no-crop branch exactly when, after the scans,
  \<open>top \<ge> bottom\<close> or \<open>left \<ge> right\<close>; the image it then hands on is the input
  image itself, pixel for pixel; and an image all of whose pixels are background takes
  that branch.
\<close>

theorem unchanged_iff_degenerate:
  "((\<exists>img'. crop img th ct sq pad = Inr (Unchanged img')) \<longleftrightarrow>
      find_top img th ct \<ge> find_bottom img th ct \<or> find_left img th ct \<ge> find_right img th ct) \<and>
   (\<forall>img'. crop img th ct sq pad = Inr (Unchanged img') \<longrightarrow> img' = img) \<and>
   ((\<forall>r\<in>{0..<int (height img)}. \<forall>c\<in>{0..<int (width img)}.
       is_background ct (img_array img r c) th) \<longrightarrow>
    crop img th ct sq pad = Inr (Unchanged img))"
proof -
  have iff: "(\<exists>img'. crop img th ct sq pad = Inr (Unchanged img')) \<longleftrightarrow>
      find_top img th ct \<ge> find_bottom img th ct \<or> find_left img th ct \<ge> find_right img th ct"
    using crop_degenerate [of img th ct sq pad] crop_not_degenerate [of img th ct sq pad]
    by blast
  have same: "\<forall>img'. crop img th ct sq pad = Inr (Unchanged img') \<longrightarrow> img' = img"
    using crop_degenerate [of img th ct sq pad] crop_not_degenerate [of img th ct sq pad]
    by (metis Inr_inject crop_result.inject(1))
  have blank: "crop img th ct sq pad = Inr (Unchanged img)"
    if "\<forall>r\<in>{0..<int (height img)}. \<forall>c\<in>{0..<int (width img)}.
       is_background ct (img_array img r c) th"
  proof -
    have "find_top img th ct = int (height img)" "find_bottom img th ct = - 1"
      using all_background_rows [OF that] find_top_exhausted find_bottom_exhausted by blast+
    then show ?thesis
      using crop_degenerate [of img th ct sq pad] by simp
  qed
  show ?thesis
    using iff same blank by blast
qed

theorem unchanged_iff_degenerate_witness:
  "crop blank_image 240 True True 200 = Inr (Unchanged blank_image) \<and>
   find_top blank_image 240 True \<ge> find_bottom blank_image 240 True \<and>
   find_top scenario_image 240 True < find_bottom scenario_image 240 True \<and>
   find_left scenario_image 240 True < find_right scenario_image 240 True \<and>
   (\<nexists>img'. crop scenario_image 240 True True 200 = Inr (Unchanged img'))"
proof -
  have "\<forall>r\<in>{0..<int (height blank_image)}. \<forall>c\<in>{0..<int (width blank_image)}.
       is_background True (img_array blank_image r c) 240"
    by code_simp
  then show ?thesis
    using unchanged_iff_degenerate [of blank_image 240 True True 200]
      unchanged_iff_degenerate [of scenario_image 240 True True 200]
    by (simp add: scenario_scans blank_scans)
qed

text \<open>
  C9: in an image with exactly one non-background pixel, at column \<open>x\<close> and row
  \<open>y\<close>, the scans end with \<open>top = y\<close>, \<open>bottom = y\<close>, \<open>left = x\<close> and
  \<open>right = x\<close>: the decreasing scans stop on the line the increasing ones stop on.
\<close>

theorem single_pixel_box:
  assumes "0 \<le> x" "x < int (width img)" "0 \<le> y" "y < int (height img)"
    and "\<not> is_background ct (img_array img y x) th"
    and "\<forall>r\<in>{0..<int (height img)}. \<forall>c\<in>{0..<int (width img)}.
           (c, r) \<noteq> (x, y) \<longrightarrow> is_background ct (img_array img r c) th"
  shows "find_top img th ct = y \<and> find_bottom img th ct = y \<and>
         find_left img th ct = x \<and> find_right img th ct = x"
proof -
  have row: "row_has_content img th ct y"
    using assms(1,2,5) by (auto simp: row_has_content_def)
  have col: "col_has_content img th ct x"
    using assms(3,4,5) by (auto simp: col_has_content_def)
  have rows: "\<forall>r\<in>{0..<int (height img)}. r \<noteq> y \<longrightarrow> \<not> row_has_content img th ct r"
    using assms(6) by (auto simp: row_has_content_def)
  have cols: "\<forall>c\<in>{0..<int (width img)}. c \<noteq> x \<longrightarrow> \<not> col_has_content img th ct c"
    using assms(6) by (auto simp: col_has_content_def)
  show ?thesis
    using content_in_one_row [OF assms(3,4) row rows] content_in_one_col [OF assms(1,2) col cols]
    by simp
qed

theorem single_pixel_box_witness:
  "\<not> is_background True (img_array dot_image 1 2) 240 \<and>
   find_top dot_image 240 True = 1 \<and> find_bottom dot_image 240 True = 1 \<and>
   find_left dot_image 240 True = 2 \<and> find_right dot_image 240 True = 2"
proof -
  have size: "(0::int) \<le> 2" "2 < int (width dot_image)" "(0::int) \<le> 1" "1 < int (height dot_image)"
    by (simp_all add: dot_image_def)
  have content: "\<not> is_background True (img_array dot_image 1 2) 240"
    by code_simp
  have others: "\<forall>r\<in>{0..<int (height dot_image)}. \<forall>c\<in>{0..<int (width dot_image)}.
           (c, r) \<noteq> (2, 1) \<longrightarrow> is_background True (img_array dot_image r c) 240"
    by code_simp
  show ?thesis
    using single_pixel_box [OF size content others] content by simp
qed

text \<open>
  C10: an image with content whose non-background pixels all lie in one row (or all in
  one column) is handed on unchanged, whatever background surrounds the content on the
  other sides: one row gives \<open>top = bottom\<close>, one column gives \<open>left = right\<close>, and
  either takes the no-crop branch.
\<close>

theorem single_line_unchanged:
  "(\<exists>y\<in>{0..<int (height img)}. row_has_content img th ct y \<and>
      (\<forall>r\<in>{0..<int (height img)}. r \<noteq> y \<longrightarrow> \<not> row_has_content img th ct r)) \<or>
   (\<exists>x\<in>{0..<int (width img)}. col_has_content img th ct x \<and>
      (\<forall>c\<in>{0..<int (width img)}. c \<noteq> x \<longrightarrow> \<not> col_has_content img th ct c)) \<Longrightarrow>
   crop img th ct sq pad = Inr (Unchanged img)"
proof (elim disjE bexE conjE)
  fix y
  assume "y \<in> {0..<int (height img)}" "row_has_content img th ct y"
    "\<forall>r\<in>{0..<int (height img)}. r \<noteq> y \<longrightarrow> \<not> row_has_content img th ct r"
  then have "find_top img th ct = y" "find_bottom img th ct = y"
    using content_in_one_row [of y img th ct] by simp_all
  then show ?thesis
    using crop_degenerate [of img th ct sq pad] by simp
next
  fix x
  assume "x \<in> {0..<int (width img)}" "col_has_content img th ct x"
    "\<forall>c\<in>{0..<int (width img)}. c \<noteq> x \<longrightarrow> \<not> col_has_content img th ct c"
  then have "find_left img th ct = x" "find_right img th ct = x"
    using content_in_one_col [of x img th ct] by simp_all
  then show ?thesis
    using crop_degenerate [of img th ct sq pad] by simp
qed

theorem single_line_unchanged_witness:
  "crop stripe_image 240 True True 200 = Inr (Unchanged stripe_image) \<and>
   find_top stripe_image 240 True = 2 \<and> find_bottom stripe_image 240 True = 2 \<and>
   find_left stripe_image 240 True = 1 \<and> find_right stripe_image 240 True = 3 \<and>
   crop bar_image 240 True False 0 = Inr (Unchanged bar_image) \<and>
   find_top bar_image 240 True = 1 \<and> find_bottom bar_image 240 True = 3 \<and>
   find_left bar_image 240 True = 2 \<and> find_right bar_image 240 True = 2"
proof -
  have row: "\<exists>y\<in>{0..<int (height stripe_image)}. row_has_content stripe_image 240 True y \<and>
      (\<forall>r\<in>{0..<int (height stripe_image)}. r \<noteq> y \<longrightarrow> \<not> row_has_content stripe_image 240 True r)"
    by code_simp
  have col: "\<exists>x\<in>{0..<int (width bar_image)}. col_has_content bar_image 240 True x \<and>
      (\<forall>c\<in>{0..<int (width bar_image)}. c \<noteq> x \<longrightarrow> \<not> col_has_content bar_image 240 True c)"
    by code_simp
  show ?thesis
    using single_line_unchanged [of stripe_image 240 True True 200, OF disjI1, OF row]
      single_line_unchanged [of bar_image 240 True False 0, OF disjI2, OF col]
    by (simp add: stripe_scans bar_scans)
qed

section \<open>Properties of the image operations\<close>

lemma nth_range_int: "i < n \<Longrightarrow> map int [0..<n] ! i = int i"
  by simp

lemma image_crop_Inr:
  "l \<le> r \<Longrightarrow> u \<le> lo \<Longrightarrow> \<exists>c. image_crop img (l, u, r, lo) = Inr c"
  by (simp add: image_crop_def)

lemma image_crop_size:
  "image_crop img (l, u, r, lo) = Inr c \<Longrightarrow>
   int (height c) = lo - u \<and> int (width c) = r - l \<and> wf_image c"
  by (auto simp: image_crop_def wf_image_def list_all_iff split: if_splits)

lemma image_crop_pixel:
  assumes "image_crop img (l, u, r, lo) = Inr c"
    and "0 \<le> x" "x < r - l" "0 \<le> y" "y < lo - u"
    and "0 \<le> l" "r \<le> int (width img)" "0 \<le> u" "lo \<le> int (height img)"
  shows "img_array c y x = img_array img (u + y) (l + x)"
proof -
  have c: "pixels c = map (\<lambda>y. map (\<lambda>x.
                  if 0 \<le> u + y \<and> u + y < int (height img) \<and>
                     0 \<le> l + x \<and> l + x < int (width img)
                  then img_array img (u + y) (l + x) else transparent)
                (map int [0..<nat (r - l)]))
              (map int [0..<nat (lo - u)])"
    using assms(1) by (auto simp: image_crop_def split: if_splits)
  have "nat y < nat (lo - u)" "nat x < nat (r - l)"
    using assms by linarith+
  then have "pixels c ! nat y ! nat x =
      (if 0 \<le> u + y \<and> u + y < int (height img) \<and> 0 \<le> l + x \<and> l + x < int (width img)
       then img_array img (u + y) (l + x) else transparent)"
    using assms(2,4) by (simp add: c)
  then show ?thesis
    using assms by (simp add: img_array_def [of c])
qed

lemma image_crop_full:
  assumes "wf_image c"
  shows "image_crop c (0, 0, int (width c), int (height c)) = Inr c"
proof -
  have rows: "length (pixels c) = height c"
    and cols: "\<And>i. i < height c \<Longrightarrow> length (pixels c ! i) = width c"
    using assms by (auto simp: wf_image_def list_all_iff)
  have "map (\<lambda>y. map (\<lambda>x.
                  if 0 \<le> 0 + y \<and> 0 + y < int (height c) \<and> 0 \<le> 0 + x \<and> 0 + x < int (width c)
                  then img_array c (0 + y) (0 + x) else transparent)
                (map int [0..<width c]))
              (map int [0..<height c]) = pixels c"
  proof (rule nth_equalityI)
    show "length (map (\<lambda>y. map (\<lambda>x.
                  if 0 \<le> 0 + y \<and> 0 + y < int (height c) \<and> 0 \<le> 0 + x \<and> 0 + x < int (width c)
                  then img_array c (0 + y) (0 + x) else transparent)
                (map int [0..<width c]))
              (map int [0..<height c])) = length (pixels c)"
      by (simp add: rows)
  next
    fix i
    assume "i < length (map (\<lambda>y. map (\<lambda>x.
                  if 0 \<le> 0 + y \<and> 0 + y < int (height c) \<and> 0 \<le> 0 + x \<and> 0 + x < int (width c)
                  then img_array c (0 + y) (0 + x) else transparent)
                (map int [0..<width c]))
              (map int [0..<height c]))"
    then have i: "i < height c" by simp
    have "map (\<lambda>x. if 0 \<le> 0 + int i \<and> 0 + int i < int (height c) \<and> 0 \<le> 0 + x \<and> 0 + x < int (width c)
                  then img_array c (0 + int i) (0 + x) else transparent)
                (map int [0..<width c]) = pixels c ! i"
      by (rule nth_equalityI) (simp_all add: cols [OF i] i img_array_def)
    then show "map (\<lambda>y. map (\<lambda>x.
                  if 0 \<le> 0 + y \<and> 0 + y < int (height c) \<and> 0 \<le> 0 + x \<and> 0 + x < int (width c)
                  then img_array c (0 + y) (0 + x) else transparent)
                (map int [0..<width c]))
              (map int [0..<height c]) ! i = pixels c ! i"
      using i by simp
  qed
  then show ?thesis
    by (simp add: image_crop_def)
qed

lemma crop_box_inside:
  assumes "find_top img th ct < find_bottom img th ct"
    and "find_left img th ct < find_right img th ct"
  shows "0 \<le> find_left img th ct" "find_right img th ct + 1 \<le> int (width img)"
    "0 \<le> find_top img th ct" "find_bottom img th ct + 1 \<le> int (height img)"
  using find_top_bounds [of img th ct] find_bottom_bounds [of img th ct]
    find_left_bounds [of img th ct] find_right_bounds [of img th ct]
  by simp_all

lemma crop_plain:
  assumes "find_top img th ct < find_bottom img th ct"
    and "find_left img th ct < find_right img th ct"
    and "image_crop img (crop_box img th ct) = Inr c"
  shows "crop img th ct False pad = Inr (Cropped c)"
  using assms by (simp add: crop_def crop_box_def Let_def)

lemma crop_square:
  assumes "find_top img th ct < find_bottom img th ct"
    and "find_left img th ct < find_right img th ct"
    and "image_crop img (crop_box img th ct) = Inr c"
    and "image_new (max (int (width c)) (int (height c)) + pad * 2) = Inr canvas"
  shows "crop img th ct True pad = Inr (Cropped (image_paste canvas c
           (pad + (max (int (width c)) (int (height c)) - int (width c)) div 2,
            pad + (max (int (width c)) (int (height c)) - int (height c)) div 2)))"
  using assms by (simp add: crop_def crop_box_def Let_def)

lemma image_new_Inr:
  "0 \<le> s \<Longrightarrow> \<exists>canvas. image_new s = Inr canvas"
  by (simp add: image_new_def)

lemma image_new_size:
  "image_new s = Inr canvas \<Longrightarrow>
   int (height canvas) = s \<and> int (width canvas) = s \<and> wf_image canvas"
  by (auto simp: image_new_def wf_image_def list_all_iff split: if_splits)

lemma image_new_pixel:
  assumes "image_new s = Inr canvas" "0 \<le> x" "x < s" "0 \<le> y" "y < s"
  shows "img_array canvas y x = transparent"
proof -
  have "pixels canvas = replicate (nat s) (replicate (nat s) transparent)"
    using assms(1) by (auto simp: image_new_def split: if_splits)
  moreover have "nat y < nat s" "nat x < nat s"
    using assms by linarith+
  ultimately show ?thesis
    by (simp add: img_array_def)
qed

lemma image_paste_size:
  "height (image_paste canvas src (x0, y0)) = height canvas"
  "width (image_paste canvas src (x0, y0)) = width canvas"
  "wf_image (image_paste canvas src (x0, y0))"
  by (simp_all add: image_paste_def wf_image_def list_all_iff)

lemma image_paste_pixel:
  assumes "0 \<le> x" "x < int (width canvas)" "0 \<le> y" "y < int (height canvas)"
  shows "img_array (image_paste canvas src (x0, y0)) y x =
    (if x0 \<le> x \<and> x < x0 + int (width src) \<and> y0 \<le> y \<and> y < y0 + int (height src)
     then img_array src (y - y0) (x - x0) else img_array canvas y x)"
proof -
  have "nat y < height canvas" "nat x < width canvas"
    using assms by linarith+
  then have "pixels (image_paste canvas src (x0, y0)) ! nat y ! nat x =
    (if x0 \<le> x \<and> x < x0 + int (width src) \<and> y0 \<le> y \<and> y < y0 + int (height src)
     then img_array src (y - y0) (x - x0) else img_array canvas y x)"
    using assms(1,3) by (simp add: image_paste_def)
  then show ?thesis
    by (simp add: img_array_def [of "image_paste canvas src (x0, y0)"])
qed

text \<open>
  C3: when the scans end with \<open>top < bottom\<close> and \<open>left < right\<close>, the script
  (without squaring) produces exactly the sub-image with the half-open bounds
  \<open>(left, top, right + 1, bottom + 1)\<close>: its size is \<open>right + 1 - left\<close> by
  \<open>bottom + 1 - top\<close> and its pixel \<open>(x, y)\<close> is the input's pixel
  \<open>(left + x, top + y)\<close>, so the last row and column with content are included. For the
  10 by 10 scenario with threshold 240 the box is \<open>(3, 3, 7, 7)\<close> and the output is the
  4 by 4 black square.
\<close>

theorem crop_extraction:
  "(find_top img th ct < find_bottom img th ct \<and> find_left img th ct < find_right img th ct \<longrightarrow>
      (\<exists>c. crop img th ct False pad = Inr (Cropped c) \<and>
         image_crop img (find_left img th ct, find_top img th ct,
           find_right img th ct + 1, find_bottom img th ct + 1) = Inr c \<and>
         int (width c) = find_right img th ct + 1 - find_left img th ct \<and>
         int (height c) = find_bottom img th ct + 1 - find_top img th ct \<and>
         wf_image c \<and>
         (\<forall>x y. 0 \<le> x \<and> x < int (width c) \<and> 0 \<le> y \<and> y < int (height c) \<longrightarrow>
            img_array c y x =
              img_array img (find_top img th ct + y) (find_left img th ct + x)))) \<and>
   crop_box scenario_image 240 True = (3, 3, 7, 7) \<and>
   crop scenario_image 240 True False pad =
     Inr (Cropped \<lparr>height = 4, width = 4, pixels = replicate 4 (replicate 4 black)\<rparr>)"
proof -
  have general: "\<exists>c. crop img th ct False pad = Inr (Cropped c) \<and>
         image_crop img (find_left img th ct, find_top img th ct,
           find_right img th ct + 1, find_bottom img th ct + 1) = Inr c \<and>
         int (width c) = find_right img th ct + 1 - find_left img th ct \<and>
         int (height c) = find_bottom img th ct + 1 - find_top img th ct \<and>
         wf_image c \<and>
         (\<forall>x y. 0 \<le> x \<and> x < int (width c) \<and> 0 \<le> y \<and> y < int (height c) \<longrightarrow>
            img_array c y x =
              img_array img (find_top img th ct + y) (find_left img th ct + x))"
    if ne: "find_top img th ct < find_bottom img th ct"
      "find_left img th ct < find_right img th ct"
  proof -
    obtain c where c: "image_crop img (find_left img th ct, find_top img th ct,
           find_right img th ct + 1, find_bottom img th ct + 1) = Inr c"
      using image_crop_Inr [of "find_left img th ct" "find_right img th ct + 1"
          "find_top img th ct" "find_bottom img th ct + 1" img] ne
      by auto
    have "crop img th ct False pad = Inr (Cropped c)"
      using crop_plain [OF ne, of c pad] c by (simp add: crop_box_def)
    moreover have "int (width c) = find_right img th ct + 1 - find_left img th ct"
      "int (height c) = find_bottom img th ct + 1 - find_top img th ct" "wf_image c"
      using image_crop_size [OF c] by simp_all
    moreover have "img_array c y x =
        img_array img (find_top img th ct + y) (find_left img th ct + x)"
      if "0 \<le> x" "x < int (width c)" "0 \<le> y" "y < int (height c)" for x y
      using image_crop_pixel [OF c, of x y] that image_crop_size [OF c] crop_box_inside [OF ne]
      by simp
    ultimately show ?thesis
      using c by blast
  qed
  have box: "crop_box scenario_image 240 True = (3, 3, 7, 7)"
    by (simp add: crop_box_def scenario_scans)
  have "image_crop scenario_image (3, 3, 7, 7) =
      Inr \<lparr>height = 4, width = 4, pixels = replicate 4 (replicate 4 black)\<rparr>"
    by code_simp
  then have "crop scenario_image 240 True False pad =
     Inr (Cropped \<lparr>height = 4, width = 4, pixels = replicate 4 (replicate 4 black)\<rparr>)"
    using crop_plain [of scenario_image 240 True _ pad] box by (simp add: scenario_scans)
  with general box show ?thesis
    by blast
qed

theorem crop_extraction_witness:
  "find_top scenario_image 240 True < find_bottom scenario_image 240 True \<and>
   find_left scenario_image 240 True < find_right scenario_image 240 True \<and>
   (\<exists>c. crop scenario_image 240 True False 0 = Inr (Cropped c) \<and>
      image_crop scenario_image (3, 3, 7, 7) = Inr c \<and> width c = 4 \<and> height c = 4 \<and>
      img_array c 0 0 = img_array scenario_image 3 3 \<and>
      img_array c 3 3 = img_array scenario_image 6 6)"
proof -
  have ne: "find_top scenario_image 240 True < find_bottom scenario_image 240 True \<and>
      find_left scenario_image 240 True < find_right scenario_image 240 True"
    by (simp add: scenario_scans)
  from crop_extraction [of scenario_image 240 True 0] ne
  obtain c where c: "crop scenario_image 240 True False 0 = Inr (Cropped c)"
    "image_crop scenario_image (3, 3, 7, 7) = Inr c" "int (width c) = 4" "int (height c) = 4"
    "\<forall>x y. 0 \<le> x \<and> x < int (width c) \<and> 0 \<le> y \<and> y < int (height c) \<longrightarrow>
       img_array c y x = img_array scenario_image (3 + y) (3 + x)"
    by (auto simp: scenario_scans)
  have "img_array c 0 0 = img_array scenario_image 3 3"
    "img_array c 3 3 = img_array scenario_image 6 6"
    using c(5) [rule_format, of 0 0] c(5) [rule_format, of 3 3] c(3,4) by simp_all
  with c ne show ?thesis
    by auto
qed

section \<open>The square canvas\<close>

lemma crop_square_canvas:
  assumes "find_top img th ct < find_bottom img th ct"
    and "find_left img th ct < find_right img th ct"
    and "0 \<le> pad"
  shows "\<exists>c canvas. image_crop img (crop_box img th ct) = Inr c \<and>
     crop img th ct True pad = Inr (Cropped canvas) \<and>
     int (width canvas) = max (int (width c)) (int (height c)) + 2 * pad \<and>
     int (height canvas) = max (int (width c)) (int (height c)) + 2 * pad \<and>
     wf_image canvas \<and>
     (\<forall>x y. 0 \<le> x \<and> x < int (width canvas) \<and> 0 \<le> y \<and> y < int (height canvas) \<longrightarrow>
        img_array canvas y x =
          (if pad + (max (int (width c)) (int (height c)) - int (width c)) div 2 \<le> x \<and>
              x < pad + (max (int (width c)) (int (height c)) - int (width c)) div 2 + int (width c) \<and>
              pad + (max (int (width c)) (int (height c)) - int (height c)) div 2 \<le> y \<and>
              y < pad + (max (int (width c)) (int (height c)) - int (height c)) div 2 + int (height c)
           then img_array c
             (y - (pad + (max (int (width c)) (int (height c)) - int (height c)) div 2))
             (x - (pad + (max (int (width c)) (int (height c)) - int (width c)) div 2))
           else transparent))"
proof -
  obtain c where c: "image_crop img (crop_box img th ct) = Inr c"
    using image_crop_Inr [of "find_left img th ct" "find_right img th ct + 1"
        "find_top img th ct" "find_bottom img th ct + 1" img] assms(1,2)
    by (auto simp: crop_box_def)
  define m where "m = max (int (width c)) (int (height c))"
  have "0 \<le> m + pad * 2"
    using assms(3) by (simp add: m_def)
  then obtain blank where blank: "image_new (m + pad * 2) = Inr blank"
    using image_new_Inr by blast
  define canvas where
    "canvas = image_paste blank c (pad + (m - int (width c)) div 2, pad + (m - int (height c)) div 2)"
  have res: "crop img th ct True pad = Inr (Cropped canvas)"
    using crop_square [OF assms(1,2) c, of pad blank] blank by (simp add: m_def canvas_def)
  have size: "int (width canvas) = m + 2 * pad" "int (height canvas) = m + 2 * pad"
    "wf_image canvas"
    using image_new_size [OF blank] by (simp_all add: canvas_def image_paste_size)
  have px: "img_array canvas y x =
          (if pad + (m - int (width c)) div 2 \<le> x \<and>
              x < pad + (m - int (width c)) div 2 + int (width c) \<and>
              pad + (m - int (height c)) div 2 \<le> y \<and>
              y < pad + (m - int (height c)) div 2 + int (height c)
           then img_array c (y - (pad + (m - int (height c)) div 2))
             (x - (pad + (m - int (width c)) div 2))
           else transparent)"
    if "0 \<le> x" "x < int (width canvas)" "0 \<le> y" "y < int (height canvas)" for x y
  proof -
    have "x < int (width blank)" "y < int (height blank)"
      using that by (simp_all add: canvas_def image_paste_size)
    moreover have "img_array blank y x = transparent"
      using image_new_pixel [OF blank, of x y] that size by simp
    ultimately show ?thesis
      using image_paste_pixel [of x blank y c] that(1,3) by (simp add: canvas_def)
  qed
  show ?thesis
    using c res size px unfolding m_def by blast
qed

lemma scenario_square: "crop scenario_image 240 True True 2 = Inr (Cropped scenario_canvas)"
  by code_simp

lemma narrow_scans:
  "find_top narrow_image 240 True = 1" "find_bottom narrow_image 240 True = 3"
  "find_left narrow_image 240 True = 1" "find_right narrow_image 240 True = 2"
  by code_simp+

lemma narrow_square: "crop narrow_image 240 True True 1 = Inr (Cropped narrow_canvas)"
  by code_simp

lemma narrow_crop:
  "image_crop narrow_image (crop_box narrow_image 240 True) =
     Inr \<lparr>height = 3, width = 2, pixels = replicate 3 (replicate 2 black)\<rparr>"
  by code_simp

lemma scenario_crop: "image_crop scenario_image (crop_box scenario_image 240 True) = Inr black_square"
  by code_simp

text \<open>
  C5: with \<open>make_square\<close>, a non-empty crop and a padding of at least 0, the output
  is a square canvas whose width and height are both the larger side of the cropped image
  plus twice the padding; the cropped image lies inside it, and every pixel outside the
  pasted rectangle is the transparent pixel \<open>(0, 0, 0, 0)\<close>. The 10 by 10 scenario with
  padding 2 gives the 8 by 8 canvas with the 4 by 4 content at offset \<open>(2, 2)\<close>.
\<close>

theorem square_canvas:
  "(find_top img th ct < find_bottom img th ct \<and> find_left img th ct < find_right img th ct \<and>
    0 \<le> pad \<longrightarrow>
      (\<exists>c canvas x0 y0. image_crop img (crop_box img th ct) = Inr c \<and>
         crop img th ct True pad = Inr (Cropped canvas) \<and>
         int (width canvas) = max (int (width c)) (int (height c)) + 2 * pad \<and>
         int (height canvas) = max (int (width c)) (int (height c)) + 2 * pad \<and>
         wf_image canvas \<and>
         0 \<le> x0 \<and> x0 + int (width c) \<le> int (width canvas) \<and>
         0 \<le> y0 \<and> y0 + int (height c) \<le> int (height canvas) \<and>
         (\<forall>x y. 0 \<le> x \<and> x < int (width canvas) \<and> 0 \<le> y \<and> y < int (height canvas) \<longrightarrow>
            img_array canvas y x =
              (if x0 \<le> x \<and> x < x0 + int (width c) \<and> y0 \<le> y \<and> y < y0 + int (height c)
               then img_array c (y - y0) (x - x0) else transparent)))) \<and>
   crop scenario_image 240 True True 2 = Inr (Cropped scenario_canvas) \<and>
   height scenario_canvas = 8 \<and> width scenario_canvas = 8"
proof -
  have general: "\<exists>c canvas x0 y0. image_crop img (crop_box img th ct) = Inr c \<and>
         crop img th ct True pad = Inr (Cropped canvas) \<and>
         int (width canvas) = max (int (width c)) (int (height c)) + 2 * pad \<and>
         int (height canvas) = max (int (width c)) (int (height c)) + 2 * pad \<and>
         wf_image canvas \<and>
         0 \<le> x0 \<and> x0 + int (width c) \<le> int (width canvas) \<and>
         0 \<le> y0 \<and> y0 + int (height c) \<le> int (height canvas) \<and>
         (\<forall>x y. 0 \<le> x \<and> x < int (width canvas) \<and> 0 \<le> y \<and> y < int (height canvas) \<longrightarrow>
            img_array canvas y x =
              (if x0 \<le> x \<and> x < x0 + int (width c) \<and> y0 \<le> y \<and> y < y0 + int (height c)
               then img_array c (y - y0) (x - x0) else transparent))"
    if ne: "find_top img th ct < find_bottom img th ct"
      "find_left img th ct < find_right img th ct" and pad: "0 \<le> pad"
  proof -
    from crop_square_canvas [OF ne pad] obtain c canvas where
      c: "image_crop img (crop_box img th ct) = Inr c"
      and res: "crop img th ct True pad = Inr (Cropped canvas)"
      and size: "int (width canvas) = max (int (width c)) (int (height c)) + 2 * pad"
        "int (height canvas) = max (int (width c)) (int (height c)) + 2 * pad"
        "wf_image canvas"
      and px: "\<forall>x y. 0 \<le> x \<and> x < int (width canvas) \<and> 0 \<le> y \<and> y < int (height canvas) \<longrightarrow>
        img_array canvas y x =
          (if pad + (max (int (width c)) (int (height c)) - int (width c)) div 2 \<le> x \<and>
              x < pad + (max (int (width c)) (int (height c)) - int (width c)) div 2 + int (width c) \<and>
              pad + (max (int (width c)) (int (height c)) - int (height c)) div 2 \<le> y \<and>
              y < pad + (max (int (width c)) (int (height c)) - int (height c)) div 2 + int (height c)
           then img_array c
             (y - (pad + (max (int (width c)) (int (height c)) - int (height c)) div 2))
             (x - (pad + (max (int (width c)) (int (height c)) - int (width c)) div 2))
           else transparent)"
      by blast
    define x0 where "x0 = pad + (max (int (width c)) (int (height c)) - int (width c)) div 2"
    define y0 where "y0 = pad + (max (int (width c)) (int (height c)) - int (height c)) div 2"
    have inside: "0 \<le> x0" "x0 + int (width c) \<le> int (width canvas)"
      "0 \<le> y0" "y0 + int (height c) \<le> int (height canvas)"
      using pad by (simp_all add: x0_def y0_def size)
    show ?thesis
      using c res size inside px unfolding x0_def [symmetric] y0_def [symmetric] by blast
  qed
  have "height scenario_canvas = 8 \<and> width scenario_canvas = 8"
    by (simp add: scenario_canvas_def)
  with general scenario_square show ?thesis
    by blast
qed

theorem square_canvas_witness:
  "find_top scenario_image 240 True < find_bottom scenario_image 240 True \<and>
   find_left scenario_image 240 True < find_right scenario_image 240 True \<and> (0::int) \<le> 2 \<and>
   image_crop scenario_image (crop_box scenario_image 240 True) = Inr black_square \<and>
   crop scenario_image 240 True True 2 = Inr (Cropped scenario_canvas) \<and>
   int (width scenario_canvas) = max (int (width black_square)) (int (height black_square)) + 2 * 2 \<and>
   int (height scenario_canvas) = max (int (width black_square)) (int (height black_square)) + 2 * 2 \<and>
   wf_image scenario_canvas \<and>
   img_array scenario_canvas 1 1 = transparent \<and>
   img_array scenario_canvas 2 2 = img_array black_square 0 0 \<and>
   img_array scenario_canvas 5 5 = img_array black_square 3 3 \<and>
   img_array scenario_canvas 6 6 = transparent"
proof -
  have ne: "find_top scenario_image 240 True < find_bottom scenario_image 240 True \<and>
      find_left scenario_image 240 True < find_right scenario_image 240 True \<and> (0::int) \<le> 2"
    by (simp add: scenario_scans)
  have px: "img_array scenario_canvas 1 1 = transparent"
    "img_array scenario_canvas 2 2 = img_array black_square 0 0"
    "img_array scenario_canvas 5 5 = img_array black_square 3 3"
    "img_array scenario_canvas 6 6 = transparent"
    by code_simp+
  from square_canvas [of scenario_image 240 True 2] ne
  have "\<exists>c canvas. image_crop scenario_image (crop_box scenario_image 240 True) = Inr c \<and>
         crop scenario_image 240 True True 2 = Inr (Cropped canvas) \<and>
         int (width canvas) = max (int (width c)) (int (height c)) + 2 * 2 \<and>
         int (height canvas) = max (int (width c)) (int (height c)) + 2 * 2 \<and>
         wf_image canvas"
    by blast
  then show ?thesis
    using ne px by (auto simp: scenario_crop scenario_square)
qed

section \<open>Cropping a cropped image\<close>

lemma content_pixel_in_box:
  assumes "0 \<le> x" "x < int (width img)" "0 \<le> y" "y < int (height img)"
    and "\<not> is_background ct (img_array img y x) th"
  shows "find_left img th ct \<le> x" "x \<le> find_right img th ct"
    "find_top img th ct \<le> y" "y \<le> find_bottom img th ct"
proof -
  have row: "row_has_content img th ct y"
    using assms(1,2,5) by (auto simp: row_has_content_def)
  have col: "col_has_content img th ct x"
    using assms(3,4,5) by (auto simp: col_has_content_def)
  show "find_left img th ct \<le> x"
    using find_left_skipped [of x img th ct] col assms(1) by force
  show "x \<le> find_right img th ct"
    using find_right_skipped [of img th ct x] col assms(2) by force
  show "find_top img th ct \<le> y"
    using find_top_skipped [of y img th ct] row assms(3) by force
  show "y \<le> find_bottom img th ct"
    using find_bottom_skipped [of img th ct y] row assms(4) by force
qed

lemma cropped_pixel:
  assumes "find_top img th ct < find_bottom img th ct"
    and "find_left img th ct < find_right img th ct"
    and "image_crop img (crop_box img th ct) = Inr c"
    and "find_left img th ct \<le> x" "x \<le> find_right img th ct"
    and "find_top img th ct \<le> y" "y \<le> find_bottom img th ct"
  shows "img_array c (y - find_top img th ct) (x - find_left img th ct) = img_array img y x"
    "x - find_left img th ct \<in> {0..<int (width c)}"
    "y - find_top img th ct \<in> {0..<int (height c)}"
proof -
  have c: "image_crop img (find_left img th ct, find_top img th ct,
      find_right img th ct + 1, find_bottom img th ct + 1) = Inr c"
    using assms(3) by (simp add: crop_box_def)
  show "img_array c (y - find_top img th ct) (x - find_left img th ct) = img_array img y x"
    using image_crop_pixel [OF c, of "x - find_left img th ct" "y - find_top img th ct"]
      crop_box_inside [OF assms(1,2)] assms(4-7)
    by simp
  show "x - find_left img th ct \<in> {0..<int (width c)}"
    "y - find_top img th ct \<in> {0..<int (height c)}"
    using image_crop_size [OF c] assms(4-7) by simp_all
qed

lemma cropped_lines:
  assumes ne: "find_top img th ct < find_bottom img th ct"
    "find_left img th ct < find_right img th ct"
    and c: "image_crop img (crop_box img th ct) = Inr c"
  shows "row_has_content c th ct 0" "row_has_content c th ct (int (height c) - 1)"
    "col_has_content c th ct 0" "col_has_content c th ct (int (width c) - 1)"
proof -
  note inside = crop_box_inside [OF ne]
  have size: "int (height c) = find_bottom img th ct + 1 - find_top img th ct"
    "int (width c) = find_right img th ct + 1 - find_left img th ct"
    using image_crop_size [of img "find_left img th ct" "find_top img th ct"
        "find_right img th ct + 1" "find_bottom img th ct + 1" c] c
    by (simp_all add: crop_box_def)
  have row: "row_has_content c th ct (y - find_top img th ct)"
    if y: "find_top img th ct \<le> y" "y \<le> find_bottom img th ct"
      and content: "row_has_content img th ct y" for y
  proof -
    from content obtain x where x: "0 \<le> x" "x < int (width img)"
      "\<not> is_background ct (img_array img y x) th"
      by (auto simp: row_has_content_def)
    have "0 \<le> y" "y < int (height img)"
      using y inside by simp_all
    then have "find_left img th ct \<le> x" "x \<le> find_right img th ct"
      using content_pixel_in_box [OF x(1,2) _ _ x(3)] by simp_all
    then have "\<not> is_background ct
        (img_array c (y - find_top img th ct) (x - find_left img th ct)) th"
      "x - find_left img th ct \<in> {0..<int (width c)}"
      using cropped_pixel [OF ne c _ _ y, of x] x(3) by simp_all
    then show ?thesis
      unfolding row_has_content_def by blast
  qed
  have col: "col_has_content c th ct (x - find_left img th ct)"
    if x: "find_left img th ct \<le> x" "x \<le> find_right img th ct"
      and content: "col_has_content img th ct x" for x
  proof -
    from content obtain y where y: "0 \<le> y" "y < int (height img)"
      "\<not> is_background ct (img_array img y x) th"
      by (auto simp: col_has_content_def)
    have "0 \<le> x" "x < int (width img)"
      using x inside by simp_all
    then have "find_top img th ct \<le> y" "y \<le> find_bottom img th ct"
      using content_pixel_in_box [OF _ _ y(1,2) y(3)] by simp_all
    then have "\<not> is_background ct
        (img_array c (y - find_top img th ct) (x - find_left img th ct)) th"
      "y - find_top img th ct \<in> {0..<int (height c)}"
      using cropped_pixel [OF ne c x, of y] y(3) by simp_all
    then show ?thesis
      unfolding col_has_content_def by blast
  qed
  show "row_has_content c th ct 0"
    using row [of "find_top img th ct"] find_top_stop [of img th ct] ne inside by simp
  show "row_has_content c th ct (int (height c) - 1)"
    using row [of "find_bottom img th ct"] find_bottom_stop [of img th ct] ne inside size
    by simp
  show "col_has_content c th ct 0"
    using col [of "find_left img th ct"] find_left_stop [of img th ct] ne inside by simp
  show "col_has_content c th ct (int (width c) - 1)"
    using col [of "find_right img th ct"] find_right_stop [of img th ct] ne inside size
    by simp
qed

lemma content_at_edges:
  assumes "row_has_content c th ct 0" "row_has_content c th ct (int (height c) - 1)"
    "col_has_content c th ct 0" "col_has_content c th ct (int (width c) - 1)"
  shows "find_top c th ct = 0" "find_bottom c th ct = int (height c) - 1"
    "find_left c th ct = 0" "find_right c th ct = int (width c) - 1"
proof -
  show "find_top c th ct = 0"
    using find_top_skipped [of 0 c th ct] find_top_bounds [of c th ct] assms(1) by force
  show "find_bottom c th ct = int (height c) - 1"
    using find_bottom_skipped [of c th ct "int (height c) - 1"] find_bottom_bounds [of c th ct]
      assms(2)
    by force
  show "find_left c th ct = 0"
    using find_left_skipped [of 0 c th ct] find_left_bounds [of c th ct] assms(3) by force
  show "find_right c th ct = int (width c) - 1"
    using find_right_skipped [of c th ct "int (width c) - 1"] find_right_bounds [of c th ct]
      assms(4)
    by force
qed

lemma recrop:
  assumes ne: "find_top img th ct < find_bottom img th ct"
    "find_left img th ct < find_right img th ct"
    and c: "image_crop img (crop_box img th ct) = Inr c"
  shows "crop_box c th ct = (0, 0, int (width c), int (height c))"
    "crop c th ct False pad = Inr (Cropped c)"
proof -
  have size: "int (height c) = find_bottom img th ct + 1 - find_top img th ct"
    "int (width c) = find_right img th ct + 1 - find_left img th ct" "wf_image c"
    using image_crop_size [of img "find_left img th ct" "find_top img th ct"
        "find_right img th ct + 1" "find_bottom img th ct + 1" c] c
    by (simp_all add: crop_box_def)
  note edges = content_at_edges [OF cropped_lines [OF ne c]]
  show box: "crop_box c th ct = (0, 0, int (width c), int (height c))"
    by (simp add: crop_box_def edges)
  have "find_top c th ct < find_bottom c th ct" "find_left c th ct < find_right c th ct"
    using ne size by (simp_all add: edges)
  then show "crop c th ct False pad = Inr (Cropped c)"
    using crop_plain [of c th ct c pad] image_crop_full [OF size(3)] box by simp
qed

lemma black_square_recrop:
  "crop black_square 240 True False 0 = Inr (Cropped black_square)"
  by code_simp

text \<open>
  C7 as stated, that a second crop of a cropped output ends in the no-crop branch, fails:
  the 4 by 4 black square the scenario leaves has \<open>top = 0 < bottom = 3\<close> and
  \<open>left = 0 < right = 3\<close>, so the second run crops again, with the whole image as
  its box.
\<close>

theorem recrop_not_unchanged_counterexample:
  "crop scenario_image 240 True False 0 = Inr (Cropped black_square) \<and>
   crop black_square 240 True False 0 = Inr (Cropped black_square) \<and>
   crop black_square 240 True False 0 \<noteq> Inr (Unchanged black_square)"
proof -
  have "crop scenario_image 240 True False 0 = Inr (Cropped black_square)"
    by code_simp
  then show ?thesis
    by (simp add: black_square_recrop)
qed

text \<open>
  C7, amended: for every image on which the script (without squaring) performs a non-empty
  crop, a second run on the output takes the crop path again, its box is the whole output
  \<open>(0, 0, width, height)\<close>, and the image it produces has exactly the pixels of that
  output.
\<close>

theorem recrop_same_pixels:
  "find_top img th ct < find_bottom img th ct \<and> find_left img th ct < find_right img th ct \<longrightarrow>
     (\<exists>c. crop img th ct False pad = Inr (Cropped c) \<and>
        crop_box c th ct = (0, 0, int (width c), int (height c)) \<and>
        crop c th ct False pad' = Inr (Cropped c))"
proof
  assume ne: "find_top img th ct < find_bottom img th ct \<and>
    find_left img th ct < find_right img th ct"
  then obtain c where c: "image_crop img (crop_box img th ct) = Inr c"
    using image_crop_Inr [of "find_left img th ct" "find_right img th ct + 1"
        "find_top img th ct" "find_bottom img th ct + 1" img]
    by (auto simp: crop_box_def)
  have "crop img th ct False pad = Inr (Cropped c)"
    using crop_plain [of img th ct c pad] ne c by simp
  moreover have "crop_box c th ct = (0, 0, int (width c), int (height c))"
    "crop c th ct False pad' = Inr (Cropped c)"
    using recrop [OF conjunct1 [OF ne] conjunct2 [OF ne] c] by simp_all
  ultimately show "\<exists>c. crop img th ct False pad = Inr (Cropped c) \<and>
        crop_box c th ct = (0, 0, int (width c), int (height c)) \<and>
        crop c th ct False pad' = Inr (Cropped c)"
    by blast
qed

theorem recrop_same_pixels_witness:
  "find_top scenario_image 240 True < find_bottom scenario_image 240 True \<and>
   find_left scenario_image 240 True < find_right scenario_image 240 True \<and>
   crop scenario_image 240 True False 0 = Inr (Cropped black_square) \<and>
   crop_box black_square 240 True = (0, 0, 4, 4) \<and>
   crop black_square 240 True False 0 = Inr (Cropped black_square)"
proof -
  have ne: "find_top scenario_image 240 True < find_bottom scenario_image 240 True \<and>
      find_left scenario_image 240 True < find_right scenario_image 240 True"
    by (simp add: scenario_scans)
  have first: "crop scenario_image 240 True False 0 = Inr (Cropped black_square)"
    by code_simp
  have "int (width black_square) = 4" "int (height black_square) = 4"
    by (simp_all add: black_square_def)
  then show ?thesis
    using recrop_same_pixels [of scenario_image 240 True 0 0] ne first by auto
qed

section \<open>Centring\<close>

lemma narrow_canvas_scans:
  "find_left narrow_canvas 240 True = 1" "find_right narrow_canvas 240 True = 2"
  "find_top narrow_canvas 240 True = 1" "find_bottom narrow_canvas 240 True = 3"
  by code_simp+

text \<open>
  C6 as stated, that the content is offset from each edge of the canvas by
  \<open>padding + floor((maxDim - dim) / 2)\<close>, fails at the far edges when
  \<open>maxDim - dim\<close> is odd: content 2 wide and 3 high with padding 1 lands on a 5 by 5
  canvas in the columns 1 and 2; the left edge is 1 away, as the formula says, the right
  edge 2.
\<close>

theorem centering_counterexample:
  "image_crop narrow_image (crop_box narrow_image 240 True) =
     Inr \<lparr>height = 3, width = 2, pixels = replicate 3 (replicate 2 black)\<rparr> \<and>
   crop narrow_image 240 True True 1 = Inr (Cropped narrow_canvas) \<and>
   width narrow_canvas = 5 \<and>
   find_left narrow_canvas 240 True = 1 + (max 2 3 - 2) div 2 \<and>
   find_right narrow_canvas 240 True = 2 \<and>
   int (width narrow_canvas) - 1 - find_right narrow_canvas 240 True \<noteq> 1 + (max 2 3 - 2) div 2"
  by (simp add: narrow_crop narrow_square narrow_canvas_scans) (simp add: narrow_canvas_def)

text \<open>
  C6, amended: with \<open>make_square\<close>, a non-empty crop and a padding of at least 0, the
  cropped content lies in the canvas with its left and top edges
  \<open>padding + floor((maxDim - dim) / 2)\<close> from the canvas's left and top edges, and its
  right and bottom edges \<open>padding + floor((maxDim - dim + 1) / 2)\<close> from the canvas's
  right and bottom edges, \<open>dim\<close> being the cropped width on the x axis and the cropped
  height on the y axis; everything outside that rectangle is transparent.
\<close>

theorem centering:
  "find_top img th ct < find_bottom img th ct \<and> find_left img th ct < find_right img th ct \<and>
   0 \<le> pad \<longrightarrow>
     (\<exists>c canvas m x0 y0. image_crop img (crop_box img th ct) = Inr c \<and>
        crop img th ct True pad = Inr (Cropped canvas) \<and>
        m = max (int (width c)) (int (height c)) \<and>
        x0 = pad + (m - int (width c)) div 2 \<and>
        y0 = pad + (m - int (height c)) div 2 \<and>
        (\<forall>x y. 0 \<le> x \<and> x < int (width c) \<and> 0 \<le> y \<and> y < int (height c) \<longrightarrow>
           img_array canvas (y0 + y) (x0 + x) = img_array c y x) \<and>
        (\<forall>x y. 0 \<le> x \<and> x < int (width canvas) \<and> 0 \<le> y \<and> y < int (height canvas) \<and>
           \<not> (x0 \<le> x \<and> x < x0 + int (width c) \<and> y0 \<le> y \<and> y < y0 + int (height c)) \<longrightarrow>
           img_array canvas y x = transparent) \<and>
        int (width canvas) - (x0 + int (width c)) = pad + (m - int (width c) + 1) div 2 \<and>
        int (height canvas) - (y0 + int (height c)) = pad + (m - int (height c) + 1) div 2)"
proof
  assume hyp: "find_top img th ct < find_bottom img th ct \<and>
    find_left img th ct < find_right img th ct \<and> 0 \<le> pad"
  from crop_square_canvas [of img th ct pad] hyp obtain c canvas where
    c: "image_crop img (crop_box img th ct) = Inr c"
    and res: "crop img th ct True pad = Inr (Cropped canvas)"
    and size: "int (width canvas) = max (int (width c)) (int (height c)) + 2 * pad"
      "int (height canvas) = max (int (width c)) (int (height c)) + 2 * pad"
    and px: "\<forall>x y. 0 \<le> x \<and> x < int (width canvas) \<and> 0 \<le> y \<and> y < int (height canvas) \<longrightarrow>
      img_array canvas y x =
        (if pad + (max (int (width c)) (int (height c)) - int (width c)) div 2 \<le> x \<and>
            x < pad + (max (int (width c)) (int (height c)) - int (width c)) div 2 + int (width c) \<and>
            pad + (max (int (width c)) (int (height c)) - int (height c)) div 2 \<le> y \<and>
            y < pad + (max (int (width c)) (int (height c)) - int (height c)) div 2 + int (height c)
         then img_array c
           (y - (pad + (max (int (width c)) (int (height c)) - int (height c)) div 2))
           (x - (pad + (max (int (width c)) (int (height c)) - int (width c)) div 2))
         else transparent)"
    by blast
  define m where "m = max (int (width c)) (int (height c))"
  define x0 where "x0 = pad + (m - int (width c)) div 2"
  define y0 where "y0 = pad + (m - int (height c)) div 2"
  have m: "int (width c) \<le> m" "int (height c) \<le> m"
    by (simp_all add: m_def)
  have pad: "0 \<le> pad"
    using hyp by simp
  have gaps: "int (width canvas) - (x0 + int (width c)) = pad + (m - int (width c) + 1) div 2"
    "int (height canvas) - (y0 + int (height c)) = pad + (m - int (height c) + 1) div 2"
    using m unfolding size m_def [symmetric] x0_def y0_def by linarith+
  have inside: "0 \<le> x0" "x0 + int (width c) \<le> int (width canvas)"
    "0 \<le> y0" "y0 + int (height c) \<le> int (height canvas)"
    using m pad unfolding size m_def [symmetric] x0_def y0_def by linarith+
  have px': "img_array canvas y x =
      (if x0 \<le> x \<and> x < x0 + int (width c) \<and> y0 \<le> y \<and> y < y0 + int (height c)
       then img_array c (y - y0) (x - x0) else transparent)"
    if "0 \<le> x" "x < int (width canvas)" "0 \<le> y" "y < int (height canvas)" for x y
    using px that unfolding m_def [symmetric] x0_def [symmetric] y0_def [symmetric] by blast
  have content: "img_array canvas (y0 + y) (x0 + x) = img_array c y x"
    if "0 \<le> x" "x < int (width c)" "0 \<le> y" "y < int (height c)" for x y
    using px' [of "x0 + x" "y0 + y"] that inside by simp
  have outside: "img_array canvas y x = transparent"
    if "0 \<le> x" "x < int (width canvas)" "0 \<le> y" "y < int (height canvas)"
      "\<not> (x0 \<le> x \<and> x < x0 + int (width c) \<and> y0 \<le> y \<and> y < y0 + int (height c))" for x y
    using px' [of x y] that by simp
  show "\<exists>c canvas m x0 y0. image_crop img (crop_box img th ct) = Inr c \<and>
        crop img th ct True pad = Inr (Cropped canvas) \<and>
        m = max (int (width c)) (int (height c)) \<and>
        x0 = pad + (m - int (width c)) div 2 \<and>
        y0 = pad + (m - int (height c)) div 2 \<and>
        (\<forall>x y. 0 \<le> x \<and> x < int (width c) \<and> 0 \<le> y \<and> y < int (height c) \<longrightarrow>
           img_array canvas (y0 + y) (x0 + x) = img_array c y x) \<and>
        (\<forall>x y. 0 \<le> x \<and> x < int (width canvas) \<and> 0 \<le> y \<and> y < int (height canvas) \<and>
           \<not> (x0 \<le> x \<and> x < x0 + int (width c) \<and> y0 \<le> y \<and> y < y0 + int (height c)) \<longrightarrow>
           img_array canvas y x = transparent) \<and>
        int (width canvas) - (x0 + int (width c)) = pad + (m - int (width c) + 1) div 2 \<and>
        int (height canvas) - (y0 + int (height c)) = pad + (m - int (height c) + 1) div 2"
    using c res m_def x0_def y0_def content outside gaps by blast
qed

theorem centering_witness:
  "find_top narrow_image 240 True < find_bottom narrow_image 240 True \<and>
   find_left narrow_image 240 True < find_right narrow_image 240 True \<and> (0::int) \<le> 1 \<and>
   image_crop narrow_image (crop_box narrow_image 240 True) =
     Inr \<lparr>height = 3, width = 2, pixels = replicate 3 (replicate 2 black)\<rparr> \<and>
   crop narrow_image 240 True True 1 = Inr (Cropped narrow_canvas) \<and>
   img_array narrow_canvas (1 + 0) (1 + 0) = black \<and>
   img_array narrow_canvas (1 + 2) (1 + 1) = black \<and>
   img_array narrow_canvas 0 0 = transparent \<and>
   img_array narrow_canvas 2 3 = transparent \<and>
   int (width narrow_canvas) - (1 + 2) = 1 + (3 - 2 + 1) div 2 \<and>
   int (height narrow_canvas) - (1 + 3) = 1 + (3 - 3 + 1) div 2"
proof -
  have hyp: "find_top narrow_image 240 True < find_bottom narrow_image 240 True \<and>
      find_left narrow_image 240 True < find_right narrow_image 240 True \<and> (0::int) \<le> 1"
    by (simp add: narrow_scans)
  have px: "img_array narrow_canvas (1 + 0) (1 + 0) = black"
    "img_array narrow_canvas (1 + 2) (1 + 1) = black"
    "img_array narrow_canvas 0 0 = transparent"
    "img_array narrow_canvas 2 3 = transparent"
    by code_simp+
  from centering [of narrow_image 240 True 1] hyp
  obtain c canvas m x0 y0 where
    c: "image_crop narrow_image (crop_box narrow_image 240 True) = Inr c"
    and canvas: "crop narrow_image 240 True True 1 = Inr (Cropped canvas)"
    and m: "m = max (int (width c)) (int (height c))"
    and pos: "x0 = 1 + (m - int (width c)) div 2" "y0 = 1 + (m - int (height c)) div 2"
    and gaps: "int (width canvas) - (x0 + int (width c)) = 1 + (m - int (width c) + 1) div 2"
      "int (height canvas) - (y0 + int (height c)) = 1 + (m - int (height c) + 1) div 2"
    by blast
  have c_eq: "c = \<lparr>height = 3, width = 2, pixels = replicate 3 (replicate 2 black)\<rparr>"
    using c by (simp add: narrow_crop)
  have canvas_eq: "canvas = narrow_canvas"
    using canvas by (simp add: narrow_square)
  have "int (width narrow_canvas) - (1 + 2) = 1 + (3 - 2 + 1) div 2"
    "int (height narrow_canvas) - (1 + 3) = 1 + (3 - 3 + 1) div 2"
    using gaps unfolding pos m c_eq canvas_eq by simp_all
  then show ?thesis
    using hyp px by (simp add: narrow_crop narrow_square)
qed

section \<open>Errors\<close>

lemma crop_zero_size:
  assumes "height img = 0 \<or> width img = 0"
  shows "crop img th ct sq pad = Inr (Unchanged img)"
proof (cases "width img = 0")
  case True
  then have "\<forall>r\<in>{0..<int (height img)}. \<not> row_has_content img th ct r"
    by (simp add: row_has_content_def)
  then have "find_top img th ct = int (height img)" "find_bottom img th ct = - 1"
    using find_top_exhausted find_bottom_exhausted by blast+
  then show ?thesis
    using crop_degenerate [of img th ct sq pad] by simp
next
  case False
  with assms have "height img = 0" by simp
  then have "find_bottom img th ct \<le> find_top img th ct"
    using find_top_bounds [of img th ct] find_bottom_bounds [of img th ct] by simp
  then show ?thesis
    using crop_degenerate [of img th ct sq pad] by simp
qed

lemma auto_crop_borders_True:
  "snd (auto_crop_borders os fs inp out th ct sq pad) \<longleftrightarrow>
     path_exists os fs inp \<and>
     (\<exists>img res fs'. image_open os fs inp = Inr img \<and> crop img th ct sq pad = Inr res \<and>
        image_save os fs (result_image res) out = (fs', None))"
  by (auto simp: auto_crop_borders_def auto_crop_body_def split: sum.splits prod.splits option.splits)

lemma auto_crop_borders_caught:
  "snd (auto_crop_body os fs inp out th ct sq pad) = Inl e \<Longrightarrow>
   auto_crop_borders os fs inp out th ct sq pad =
     (fst (auto_crop_body os fs inp out th ct sq pad), False)"
  by (cases "auto_crop_body os fs inp out th ct sq pad") (simp add: auto_crop_borders_def)

lemma test_runs:
  "auto_crop_body test_io [(''b.png'', None)] ''b.png'' ''out.png'' 240 True True 200 =
     ([(''b.png'', None)], Inl UnidentifiedImageError)"
  "auto_crop_borders test_io [(''b.png'', None)] ''b.png'' ''out.png'' 240 True True 200 =
     ([(''b.png'', None)], False)"
  "auto_crop_body readonly_io [(''a.png'', Some scenario_image)] ''a.png'' ''out.png'' 240 True False 0 =
     ([(''a.png'', Some scenario_image)], Inl OSError)"
  "auto_crop_borders readonly_io [(''a.png'', Some scenario_image)] ''a.png'' ''out.png'' 240 True False 0 =
     ([(''a.png'', Some scenario_image)], False)"
  "auto_crop_borders test_io [(''a.png'', Some scenario_image)] ''a.png'' ''out.png'' 240 True False 0 =
     ([(''out.png'', Some black_square), (''a.png'', Some scenario_image)], True)"
  "auto_crop_borders test_io [(''a.png'', Some scenario_image)] ''c.png'' ''out.png'' 240 True False 0 =
     ([(''a.png'', Some scenario_image)], False)"
  by code_simp+

text \<open>
  C8 as stated, that an image of zero width or height makes the operation signal an
  error of its own and that no error is caught, fails: the script has no check of the
  dimensions, and an exception raised inside the body, here by opening a file that is no
  picture and by a save that fails, ends in the handler of lines 124-126, which returns
  \<open>False\<close> to the caller.
\<close>

theorem errors_propagate_counterexample:
  "auto_crop_body test_io [(''b.png'', None)] ''b.png'' ''out.png'' 240 True True 200 =
     ([(''b.png'', None)], Inl UnidentifiedImageError) \<and>
   auto_crop_borders test_io [(''b.png'', None)] ''b.png'' ''out.png'' 240 True True 200 =
     ([(''b.png'', None)], False) \<and>
   auto_crop_body readonly_io [(''a.png'', Some scenario_image)] ''a.png'' ''out.png''
     240 True False 0 = ([(''a.png'', Some scenario_image)], Inl OSError) \<and>
   auto_crop_borders readonly_io [(''a.png'', Some scenario_image)] ''a.png'' ''out.png''
     240 True False 0 = ([(''a.png'', Some scenario_image)], False)"
  by (simp add: test_runs)

text \<open>
  C8, amended: the algorithm has no check of the dimensions and raises nothing of its
  own on an array of zero width or zero height: the scans read no pixel and the no-crop
  branch is taken. Every exception that leaves the body, from opening, cropping or
  saving, is caught and becomes the return value \<open>False\<close>; and the call returns
  \<open>True\<close> exactly when the input path exists and opening, cropping and saving all
  succeed.
\<close>

theorem errors_become_false:
  "((height img = 0 \<or> width img = 0) \<longrightarrow> crop img th ct sq pad = Inr (Unchanged img)) \<and>
   (\<forall>e. snd (auto_crop_body os fs inp out th ct sq pad) = Inl e \<longrightarrow>
      auto_crop_borders os fs inp out th ct sq pad =
        (fst (auto_crop_body os fs inp out th ct sq pad), False)) \<and>
   (snd (auto_crop_borders os fs inp out th ct sq pad) \<longleftrightarrow>
      path_exists os fs inp \<and>
      (\<exists>img res fs'. image_open os fs inp = Inr img \<and> crop img th ct sq pad = Inr res \<and>
         image_save os fs (result_image res) out = (fs', None)))"
  using crop_zero_size [of img th ct sq pad] auto_crop_borders_caught [of os fs inp out th ct sq pad]
    auto_crop_borders_True [of os fs inp out th ct sq pad]
  by blast

theorem errors_become_false_witness:
  "(height empty_image = 0 \<or> width empty_image = 0) \<and>
   crop empty_image 240 True False 0 = Inr (Unchanged empty_image) \<and>
   snd (auto_crop_body readonly_io [(''a.png'', Some scenario_image)] ''a.png'' ''out.png''
     240 True False 0) = Inl OSError \<and>
   auto_crop_borders readonly_io [(''a.png'', Some scenario_image)] ''a.png'' ''out.png''
     240 True False 0 = ([(''a.png'', Some scenario_image)], False) \<and>
   snd (auto_crop_borders test_io [(''a.png'', Some scenario_image)] ''a.png'' ''out.png''
     240 True False 0) \<and>
   path_exists test_io [(''a.png'', Some scenario_image)] ''a.png''"
proof -
  have zero: "height empty_image = 0 \<or> width empty_image = 0"
    by (simp add: empty_image_def)
  have raised: "snd (auto_crop_body readonly_io [(''a.png'', Some scenario_image)] ''a.png''
      ''out.png'' 240 True False 0) = Inl OSError"
    by (simp add: test_runs)
  have ok: "snd (auto_crop_borders test_io [(''a.png'', Some scenario_image)] ''a.png'' ''out.png''
     240 True False 0)"
    by (simp add: test_runs)
  show ?thesis
    using errors_become_false [of empty_image 240 True False 0 readonly_io
        "[(''a.png'', Some scenario_image)]" "''a.png''" "''out.png''"]
      errors_become_false [of scenario_image 240 True False 0 test_io
        "[(''a.png'', Some scenario_image)]" "''a.png''" "''out.png''"]
      zero raised ok
    by (simp add: test_runs)
qed

end
